theory Spec2Isabelle
  imports Complex_Main
begin

section \<open>Values: numpy float64 arrays\<close>

text \<open>
  The program computes on numpy float64 arrays. A value is a finite number or one of the
  IEEE 754 special values. numpy does not raise on a division by zero or on an invalid
  operation: it returns an infinity or NaN (and prints a RuntimeWarning), so those results
  are values here, not errors.
\<close>

datatype npfloat = Fin real | PInf | NInf | NaN

text \<open>
  What numpy and scipy leave to their implementation is a parameter \<open>rnd\<close> of every
  operation:
  \<^item> \<open>round_to\<close> maps the exact result of an operation on finite operands to the value
    that is stored;
  \<^item> \<open>sum_order\<close> gives, for an array, the order in which its entries are added up: a
    tree whose leaves are positions of the array. (numpy adds long arrays pairwise in
    blocks, scipy adds the stored entries of a sparse row in their storage order; the order
    changes with the version and the length of the array.)
  \<^item> \<open>argsort\<close> is \<open>np.argsort\<close>, which leaves the order of equal keys open (its default
    sort is not stable).
\<close>

datatype sumtree = Term nat | Plus sumtree sumtree

record numerics =
  round_to :: "real \<Rightarrow> npfloat"
  sum_order :: "npfloat list \<Rightarrow> sumtree"
  argsort :: "real list \<Rightarrow> nat list"

fun terms :: "sumtree \<Rightarrow> nat list" where
  "terms (Term j) = [j]"
| "terms (Plus l r) = terms l @ terms r"

definition left_to_right :: "npfloat list \<Rightarrow> sumtree" where
  \<comment> \<open>\<open>((x\<^sub>0 + x\<^sub>1) + x\<^sub>2) + \<dots>\<close>\<close>
  "left_to_right xs = foldl (\<lambda>t j. Plus t (Term j)) (Term 0) [1..<length xs]"

definition stable_argsort :: "real list \<Rightarrow> nat list" where
  \<comment> \<open>the indices that sort the array ascending, equal keys in their order\<close>
  "stable_argsort xs = sort_key (\<lambda>i. xs ! i) [0..<length xs]"

text \<open>
  Two instances are used. \<open>exact\<close> does not round: it is the arithmetic of the reals, in
  which the order of a sum does not matter. \<open>binary64\<close> rounds as IEEE 754 does
  (round-to-nearest-even to a 53-bit significand, overflow to an infinity, gradual
  underflow); under it \<open>+\<close>, \<open>*\<close> and \<open>/\<close> are the correctly rounded operations of
  IEEE 754, and \<open>exp\<close>, \<open>**\<close> and \<open>sqrt\<close> are taken as correctly rounded too, which a math
  library only approximates (\<open>x ** -1\<close> is the correctly rounded reciprocal). Both add from
  left to right and sort stably; the statements below that evaluate \<open>binary64\<close> add rows
  of at most two stored entries, whose sum is the same in every order, and the statements
  about an arbitrary \<open>rnd\<close> hold for every order of the additions and of equal keys.

  Signed zeros are not distinguished. Adding zero returns the other operand unchanged, as
  it does in IEEE arithmetic, so a sum over the stored entries of a sparse row is the sum
  over the whole row.
\<close>

definition rne :: "real \<Rightarrow> int" where
  \<comment> \<open>round to the nearest integer, ties to the even one\<close>
  "rne q = (let f = \<lfloor>q\<rfloor>; r = q - of_int f in
     if r < 1 / 2 then f else if 1 / 2 < r then f + 1 else if even f then f else f + 1)"

definition round64 :: "real \<Rightarrow> npfloat" where
  "round64 x =
     (if x = 0 then Fin 0
      else let e = max (\<lfloor>log 2 \<bar>x\<bar>\<rfloor>) (- 1022);
               ulp = 2 powi (e - 52);
               y = of_int (rne (x / ulp)) * ulp
           in if 2 ^ 1024 \<le> y then PInf else if y \<le> - (2 ^ 1024) then NInf else Fin y)"

definition exact :: numerics where
  "exact = \<lparr>round_to = Fin, sum_order = left_to_right, argsort = stable_argsort\<rparr>"

definition binary64 :: numerics where
  "binary64 = \<lparr>round_to = round64, sum_order = left_to_right, argsort = stable_argsort\<rparr>"

fun np_neg :: "npfloat \<Rightarrow> npfloat" where
  "np_neg (Fin x) = Fin (- x)"
| "np_neg PInf = NInf"
| "np_neg NInf = PInf"
| "np_neg NaN = NaN"

fun np_add :: "numerics \<Rightarrow> npfloat \<Rightarrow> npfloat \<Rightarrow> npfloat" where
  "np_add rnd (Fin x) (Fin y) = (if x = 0 then Fin y else if y = 0 then Fin x else round_to rnd (x + y))"
| "np_add rnd NaN _ = NaN"
| "np_add rnd _ NaN = NaN"
| "np_add rnd PInf NInf = NaN"
| "np_add rnd NInf PInf = NaN"
| "np_add rnd PInf _ = PInf"
| "np_add rnd NInf _ = NInf"
| "np_add rnd _ PInf = PInf"
| "np_add rnd _ NInf = NInf"

definition inf_of_sign :: "real \<Rightarrow> npfloat" where
  \<comment> \<open>the infinity with the sign of a nonzero factor; NaN for a zero one\<close>
  "inf_of_sign s = (if 0 < s then PInf else if s < 0 then NInf else NaN)"

fun np_mul :: "numerics \<Rightarrow> npfloat \<Rightarrow> npfloat \<Rightarrow> npfloat" where
  "np_mul rnd (Fin x) (Fin y) = round_to rnd (x * y)"
| "np_mul rnd NaN _ = NaN"
| "np_mul rnd _ NaN = NaN"
| "np_mul rnd PInf (Fin y) = inf_of_sign y"
| "np_mul rnd NInf (Fin y) = inf_of_sign (- y)"
| "np_mul rnd (Fin x) PInf = inf_of_sign x"
| "np_mul rnd (Fin x) NInf = inf_of_sign (- x)"
| "np_mul rnd PInf PInf = PInf"
| "np_mul rnd NInf NInf = PInf"
| "np_mul rnd PInf NInf = NInf"
| "np_mul rnd NInf PInf = NInf"

fun np_div :: "numerics \<Rightarrow> npfloat \<Rightarrow> npfloat \<Rightarrow> npfloat" where
  "np_div rnd (Fin x) (Fin y) = (if y \<noteq> 0 then round_to rnd (x / y) else inf_of_sign x)"
| "np_div rnd NaN _ = NaN"
| "np_div rnd _ NaN = NaN"
| "np_div rnd (Fin x) PInf = Fin 0"
| "np_div rnd (Fin x) NInf = Fin 0"
| "np_div rnd PInf (Fin y) = (if 0 \<le> y then PInf else NInf)"
| "np_div rnd NInf (Fin y) = (if 0 \<le> y then NInf else PInf)"
| "np_div rnd PInf _ = NaN"
| "np_div rnd NInf _ = NaN"

fun np_exp :: "numerics \<Rightarrow> npfloat \<Rightarrow> npfloat" where
  "np_exp rnd (Fin x) = round_to rnd (exp x)"
| "np_exp rnd PInf = PInf"
| "np_exp rnd NInf = Fin 0"
| "np_exp rnd NaN = NaN"

fun np_sqrt :: "numerics \<Rightarrow> npfloat \<Rightarrow> npfloat" where
  "np_sqrt rnd (Fin x) = (if 0 \<le> x then round_to rnd (sqrt x) else NaN)"
| "np_sqrt rnd PInf = PInf"
| "np_sqrt rnd NInf = NaN"
| "np_sqrt rnd NaN = NaN"

fun np_power :: "numerics \<Rightarrow> npfloat \<Rightarrow> real \<Rightarrow> npfloat" where
  \<comment> \<open>\<open>x ** a\<close> for a scalar exponent \<open>a\<close>\<close>
  "np_power rnd (Fin x) a =
     (if 0 < x then round_to rnd (x powr a)
      else if x = 0 then (if 0 < a then Fin 0 else if a = 0 then Fin 1 else PInf)
      else if a \<in> \<int> then round_to rnd (x powi \<lfloor>a\<rfloor>) else NaN)"
| "np_power rnd PInf a = (if 0 < a then PInf else if a = 0 then Fin 1 else Fin 0)"
| "np_power rnd NInf a =
     (if a < 0 then Fin 0 else if a = 0 then Fin 1
      else if a \<in> \<int> \<and> odd \<lfloor>a\<rfloor> then NInf else PInf)"
| "np_power rnd NaN a = (if a = 0 then Fin 1 else NaN)"

definition np_ne0 :: "npfloat \<Rightarrow> bool" where
  \<comment> \<open>\<open>x != 0\<close>: true of the infinities and of NaN\<close>
  "np_ne0 x = (x \<noteq> Fin 0)"

fun tree_sum :: "numerics \<Rightarrow> npfloat list \<Rightarrow> sumtree \<Rightarrow> npfloat" where
  "tree_sum rnd xs (Term j) = (if j < length xs then xs ! j else Fin 0)"
| "tree_sum rnd xs (Plus l r) = np_add rnd (tree_sum rnd xs l) (tree_sum rnd xs r)"

definition np_sum :: "numerics \<Rightarrow> npfloat list \<Rightarrow> npfloat" where
  \<comment> \<open>the sum of an array, added up in the order \<open>sum_order\<close>; 0 for an empty array\<close>
  "np_sum rnd xs = (if xs = [] then Fin 0 else tree_sum rnd xs (sum_order rnd xs))"

definition np_norm :: "numerics \<Rightarrow> npfloat list \<Rightarrow> npfloat" where
  \<comment> \<open>\<open>np.linalg.norm\<close> of a vector: the square root of the sum of the squares\<close>
  "np_norm rnd xs = np_sqrt rnd (np_sum rnd (map (\<lambda>x. np_mul rnd x x) xs))"

datatype error = KeyError | IndexError | ValueError | AttributeError | TypeError

definition py_index :: "'a list \<Rightarrow> int \<Rightarrow> error + 'a" where
  \<comment> \<open>\<open>xs[i]\<close>: an index below zero counts back from the end; outside the array it raises\<close>
  "py_index xs i =
     (if 0 \<le> i \<and> i < int (length xs) then Inr (xs ! nat i)
      else if i < 0 \<and> - int (length xs) \<le> i then Inr (xs ! nat (int (length xs) + i))
      else Inl IndexError)"

fun sequence :: "(error + 'a) list \<Rightarrow> error + 'a list" where
  \<comment> \<open>a loop whose body may raise: the first error ends it\<close>
  "sequence [] = Inr []"
| "sequence (Inl e # _) = Inl e"
| "sequence (Inr x # rs) = (case sequence rs of Inl e \<Rightarrow> Inl e | Inr xs \<Rightarrow> Inr (x # xs))"

section \<open>Samples, neighbour graphs and sparse matrices\<close>

record dataset =
  is_sparse :: bool
  samples :: "real list list"

definition n_rows :: "dataset \<Rightarrow> nat" where
  \<comment> \<open>\<open>data.shape[0]\<close>\<close>
  "n_rows data = length (samples data)"

text \<open>
  A neighbour graph is a CSR matrix of distances: row \<open>i\<close> is the list of the stored
  (column, distance) entries of sample \<open>i\<close>, in storage order. An explicit zero (the
  distance of a sample to itself or to a duplicate) is a stored entry.
\<close>

type_synonym graph = "(nat \<times> real) list list"

definition row_data :: "graph \<Rightarrow> nat \<Rightarrow> real list" where
  \<comment> \<open>\<open>g.data[g.indptr[i]: g.indptr[i + 1]]\<close>\<close>
  "row_data g i = map snd (g ! i)"

definition entry :: "graph \<Rightarrow> nat \<Rightarrow> nat \<Rightarrow> real" where
  \<comment> \<open>the value at (i, j): the stored entries of that place summed, 0 when there is none\<close>
  "entry g i j = sum_list (map snd (filter (\<lambda>e. fst e = j) (g ! i)))"

definition find_sp :: "graph \<Rightarrow> nat \<Rightarrow> ((nat \<times> nat) \<times> real) list" where
  \<comment> \<open>\<open>scipy.sparse.find\<close>: the places and values of the nonzero entries of a matrix
      with \<open>n\<close> columns; explicit zeros are left out\<close>
  "find_sp g n =
     map (\<lambda>k. (k, entry g (fst k) (snd k)))
       (filter (\<lambda>k. entry g (fst k) (snd k) \<noteq> 0) (List.product [0..<length g] [0..<n]))"

text \<open>
  A sparse matrix of values is read as the function giving the value at each place, with
  0 at a place that is not stored. The sparse products and sums of scipy drop a result
  that is 0, so a place holding 0 is a place that is not stored.
\<close>

type_synonym matrix = "nat \<Rightarrow> nat \<Rightarrow> npfloat"

type_synonym vector = "nat \<Rightarrow> npfloat"

definition coo_matrix :: "((nat \<times> nat) \<times> npfloat) list \<Rightarrow> matrix" where
  \<comment> \<open>\<open>csr_matrix((vals, (x, y)))\<close> for places that are all different\<close>
  "coo_matrix ts = (\<lambda>i j. case map_of ts (i, j) of None \<Rightarrow> Fin 0 | Some v \<Rightarrow> v)"

definition row_sum :: "numerics \<Rightarrow> nat \<Rightarrow> matrix \<Rightarrow> vector" where
  \<comment> \<open>\<open>np.ravel(A.sum(axis=1))\<close> of an n by n matrix\<close>
  "row_sum rnd n A = (\<lambda>i. np_sum rnd (map (A i) [0..<n]))"

definition diag_dot :: "numerics \<Rightarrow> vector \<Rightarrow> matrix \<Rightarrow> matrix" where
  \<comment> \<open>\<open>diag(d).dot(A)\<close>: a product is formed at the stored places of \<open>A\<close> only\<close>
  "diag_dot rnd d A = (\<lambda>i j. if A i j = Fin 0 then Fin 0 else np_mul rnd (d i) (A i j))"

definition dot_diag :: "numerics \<Rightarrow> matrix \<Rightarrow> vector \<Rightarrow> matrix" where
  \<comment> \<open>\<open>A.dot(diag(d))\<close>\<close>
  "dot_diag rnd A d = (\<lambda>i j. if A i j = Fin 0 then Fin 0 else np_mul rnd (A i j) (d j))"

definition list_max :: "real list \<Rightarrow> real" where
  "list_max xs = (case xs of [] \<Rightarrow> 0 | x # ys \<Rightarrow> fold max ys x)"

definition sp_row_max :: "nat \<Rightarrow> (nat \<times> real) list \<Rightarrow> real" where
  \<comment> \<open>one row of \<open>A.max(axis=1)\<close> for a sparse matrix with \<open>n\<close> columns: the places that
      are not stored count as 0\<close>
  "sp_row_max n row =
     (let vs = map snd row in
      if vs = [] then 0 else if length vs < n then max 0 (list_max vs) else list_max vs)"

section \<open>The external collaborators\<close>

text \<open>
  The nearest-neighbour searches (nmslib, scikit-learn), the eigensolver (scipy's ARPACK
  wrapper) and the knee locator (kneed) are libraries outside the repository. The model
  takes them as parameters:
  \<^item> \<open>knnQueryBatch\<close> is the answer of a built nmslib index to the query for one row: the
    (index, distance) pairs of its neighbours. nmslib returns float32 distances;
    \<open>square32\<close> is the float32 square that \<open>distances **= 2\<close> computes on them.
  \<^item> \<open>kneighbors_graph\<close> is \<open>NearestNeighbors(n_neighbors, metric).fit(data)\<close> followed
    by \<open>kneighbors_graph(data, mode='distance')\<close>: the stored entries of each row of the
    graph, or the error that either call raises.
  \<^item> \<open>eigs\<close> is \<open>scipy.sparse.linalg.eigs(A, k, tol=1e-4, maxiter=1000)\<close> for an
    \<open>n\<close> by \<open>n\<close> matrix: the eigenpairs, or the error raised.
  \<^item> \<open>knee\<close> is \<open>KneeLocator(range(1, len(y) + 1), y, S, curve='convex',
    direction='decreasing').knee\<close>: the knee, None when there is none, or the error
    that the constructor raises.

  The calls are recorded in a trace. \<open>IndexBuilt\<close> and \<open>KnnQuery\<close> are recorded when
  the nmslib index has been created and when it has answered the queries; \<open>ExactSearch\<close>
  when scikit-learn has returned a graph, so that a search has been executed (a call that
  raises, in \<open>fit\<close> before any search or in the search itself, leaves no event);
  \<open>EigsCall\<close> when the eigensolver is called, whatever it answers.
\<close>

record nmslib_index =
  idx_method :: string
  idx_space :: string
  idx_data :: dataset
  idx_params :: "nat \<times> int \<times> nat"

record env =
  knnQueryBatch :: "nmslib_index \<Rightarrow> nat \<Rightarrow> dataset \<Rightarrow> nat \<Rightarrow> int \<Rightarrow> nat \<Rightarrow> (nat \<times> real) list"
  kneighbors_graph :: "string \<Rightarrow> nat \<Rightarrow> dataset \<Rightarrow> error + (nat \<Rightarrow> (nat \<times> real) list)"
  eigs :: "matrix \<Rightarrow> nat \<Rightarrow> nat \<Rightarrow> error + (complex \<times> complex list) list"
  knee :: "real list \<Rightarrow> real \<Rightarrow> error + int option"
  square32 :: "real \<Rightarrow> real"

datatype event =
  IndexBuilt string string
| KnnQuery nat
| ExactSearch string nat
| EigsCall nat

section \<open>NMSlibTransformer\<close>

text \<open>
  The attributes of the object. \<open>method_name\<close> is the attribute \<open>method\<close>,
  \<open>n_samples_fit\<close> and \<open>nmslib_index_of\<close> are \<open>n_samples_fit_\<close> and \<open>nmslib_\<close>,
  which exist once \<open>fit\<close> has run. The attribute \<open>p\<close> is stored and never read; it
  is left out. Progress messages and timings are left out throughout.
\<close>

record NMSlibTransformer =
  n_neighbors :: nat
  method_name :: string
  metric :: string
  n_jobs :: int
  M :: nat
  efC :: nat
  efS :: nat
  space :: string
  n_samples_fit :: "nat option"
  nmslib_index_of :: "nmslib_index option"

definition space_table :: "(string \<times> string) list" where
  "space_table =
     [(''sqeuclidean'', ''l2''),
      (''euclidean'', ''l2''),
      (''euclidean_sparse'', ''l2_sparse''),
      (''cosine'', ''cosinesimil''),
      (''cosine_sparse'', ''cosinesimil_sparse_fast''),
      (''l1'', ''l1''),
      (''l1_sparse'', ''l1_sparse''),
      (''linf'', ''linf''),
      (''linf_sparse'', ''linf_sparse''),
      (''angular'', ''angulardist''),
      (''angular_sparse'', ''angulardist_sparse_fast''),
      (''levenshtein'', ''leven''),
      (''hamming'', ''bit_hamming''),
      (''jaccard'', ''bit_jaccard''),
      (''jaccard_sparse'', ''jaccard_sparse''),
      (''jansen-shan'', ''jsmetrfastapprox'')]"

definition NMSlibTransformer_init ::
  "nat \<Rightarrow> string \<Rightarrow> string \<Rightarrow> int \<Rightarrow> nat \<Rightarrow> nat \<Rightarrow> nat \<Rightarrow> error + NMSlibTransformer" where
  "NMSlibTransformer_init k metr meth jobs m efc efs =
     (case map_of space_table metr of
        None \<Rightarrow> Inl KeyError
      | Some sp \<Rightarrow>
          Inr \<lparr>n_neighbors = k, method_name = meth, metric = metr, n_jobs = jobs, M = m,
               efC = efc, efS = efs, space = sp, n_samples_fit = None, nmslib_index_of = None\<rparr>)"

definition NMSlibTransformer_fit :: "NMSlibTransformer \<Rightarrow> dataset \<Rightarrow> error + NMSlibTransformer" where
  \<comment> \<open>a dense input has no \<open>tocsr\<close>: the call raises AttributeError, which the
      \<open>except SyntaxError\<close> does not catch\<close>
  "NMSlibTransformer_fit self data =
     (if \<not> is_sparse data then Inl AttributeError
      else Inr (self\<lparr>n_samples_fit := Some (n_rows data),
                     nmslib_index_of := Some \<lparr>idx_method = ''hnsw'',
                                     idx_space = ''cosinesimil_sparse_fast'',
                                     idx_data = data,
                                     idx_params = (M self, n_jobs self, efC self)\<rparr>\<rparr>))"

definition NMSlibTransformer_transform ::
  "env \<Rightarrow> NMSlibTransformer \<Rightarrow> dataset \<Rightarrow> NMSlibTransformer \<times> (error + graph)" where
  \<comment> \<open>the object after the call and the graph returned or the error raised. The rows of
      the answer must all hold \<open>n_neighbors\<close> entries for \<open>np.vstack\<close> and the CSR
      constructor to accept them.\<close>
  "NMSlibTransformer_transform ev self data =
     (case nmslib_index_of self of
        None \<Rightarrow> (self, Inl AttributeError)
      | Some idx \<Rightarrow>
          let self' = self\<lparr>n_neighbors := n_neighbors self + 1\<rparr>;
              k = n_neighbors self';
              results = map (knnQueryBatch ev idx (efS self) data k (n_jobs self)) [0..<n_rows data];
              distances = (if metric self = ''sqeuclidean''
                           then map (map (\<lambda>(j, d). (j, square32 ev d))) results else results)
          in if results = [] \<or> (\<exists>r \<in> set results. length r \<noteq> k)
             then (self', Inl ValueError)
             else (self', Inr distances))"

section \<open>multiscale\<close>

text \<open>
  The result dictionary of \<open>Diffusor.fit_transform\<close>, which \<open>multiscale\<close> reads. The
  eigenvector matrix is the list of its columns.
\<close>

record result_bundle =
  T :: matrix
  EigenVectors :: "npfloat list list"
  EigenValues :: "real list"
  kernel :: matrix

record multiscale =
  n_eigs :: "int option"
  sensitivity :: real
  plot :: bool

definition multiscale_fit :: "env \<Rightarrow> multiscale \<Rightarrow> result_bundle \<Rightarrow> multiscale \<times> (error + unit)" where
  \<comment> \<open>the object after the call, and the error raised if any. With \<open>n_eigs\<close> given the
      knee locator is built for the plot only; \<open>round(kneedle.knee)\<close> raises TypeError
      when no knee is found. The drawing of the plot is left out.\<close>
  "multiscale_fit ev self res =
     (case n_eigs self of
        Some _ \<Rightarrow>
          (if plot self
           then (case knee ev (EigenValues res) (sensitivity self) of
                   Inl e \<Rightarrow> (self, Inl e)
                 | Inr _ \<Rightarrow> (self, Inr ()))
           else (self, Inr ()))
      | None \<Rightarrow>
          (case knee ev (EigenValues res) (sensitivity self) of
             Inl e \<Rightarrow> (self, Inl e)
           | Inr None \<Rightarrow> (self, Inl TypeError)
           | Inr (Some k) \<Rightarrow> (self\<lparr>n_eigs := Some k\<rparr>, Inr ())))"

definition gaps :: "real list \<Rightarrow> real list" where
  \<comment> \<open>\<open>vals[: (len(vals) - 1)] - vals[1:]\<close>\<close>
  "gaps vals = map (\<lambda>(a, b). a - b) (zip (butlast vals) (tl vals))"

definition py_range :: "int \<Rightarrow> int \<Rightarrow> nat list" where
  \<comment> \<open>\<open>list(range(a, b))\<close> for \<open>0 \<le> a\<close>\<close>
  "py_range a b = map nat [a..b - 1]"

definition scale_column :: "numerics \<Rightarrow> npfloat list \<Rightarrow> real \<Rightarrow> npfloat list" where
  \<comment> \<open>a column times \<open>eig_val / (1 - eig_val)\<close>\<close>
  "scale_column rnd v ev =
     map (\<lambda>x. np_mul rnd x (np_div rnd (Fin ev) (np_add rnd (Fin 1) (np_neg (Fin ev))))) v"

definition scaled_columns :: "numerics \<Rightarrow> result_bundle \<Rightarrow> int \<Rightarrow> error + npfloat list list" where
  \<comment> \<open>the part "Scale the data" for \<open>self.n_eigs = m\<close>: the columns of the matrix
      returned. A label that the eigenvalue Series does not hold raises KeyError.\<close>
  "scaled_columns rnd res m =
     (let use_eigs = py_range 1 m
      in if \<exists>j \<in> set use_eigs. length (EigenValues res) \<le> j then Inl KeyError
         else if \<exists>j \<in> set use_eigs. length (EigenVectors res) \<le> j then Inl IndexError
         else Inr (map (\<lambda>j. scale_column rnd (EigenVectors res ! j) (EigenValues res ! j))
                     use_eigs))"

definition multiscale_transform ::
  "numerics \<Rightarrow> multiscale \<Rightarrow> result_bundle \<Rightarrow> multiscale \<times> (error + npfloat list list)" where
  \<comment> \<open>the object after the call, and the matrix returned or the error raised. When
      \<open>n_eigs\<close> is None it is assigned before the second index is read, so an IndexError
      there leaves the first value in the object.\<close>
  "multiscale_transform rnd self res =
     (case n_eigs self of
        Some m \<Rightarrow> (self, scaled_columns rnd res m)
      | None \<Rightarrow>
          let order = argsort rnd (gaps (EigenValues res)) in
          (case py_index order (- 1) of
             Inl e \<Rightarrow> (self, Inl e)
           | Inr i \<Rightarrow>
               let self1 = self\<lparr>n_eigs := Some (int i + 1)\<rparr> in
               if int i + 1 < 3
               then (case py_index order (- 2) of
                       Inl e \<Rightarrow> (self1, Inl e)
                     | Inr j \<Rightarrow> (self\<lparr>n_eigs := Some (int j + 2)\<rparr>,
                                scaled_columns rnd res (int j + 2)))
               else (self1, scaled_columns rnd res (int i + 1))))"

section \<open>Diffusor\<close>

text \<open>
  \<open>dn_neighbors\<close>, \<open>dn_jobs\<close>, \<open>dM\<close>, \<open>defC\<close> and \<open>defS\<close> are the attributes
  \<open>n_neighbors\<close>, \<open>n_jobs\<close>, \<open>M\<close>, \<open>efC\<close> and \<open>efS\<close> of \<open>Diffusor\<close>; the plain
  names are the fields of \<open>NMSlibTransformer\<close>. \<open>fit_transform\<close> is split at the
  comments of the source: the neighbour graph and the matrix \<open>W\<close> of each branch, the
  kernel, the diffusion operator and the eigendecomposition.
\<close>

record Diffusor =
  n_components :: nat
  dn_neighbors :: nat
  alpha :: real
  dn_jobs :: int
  ann :: bool
  ann_dist :: string
  dM :: nat
  defC :: nat
  defS :: nat
  knn_dist :: string

definition adaptive_k :: "nat \<Rightarrow> nat" where
  \<comment> \<open>\<open>int(np.floor(self.n_neighbors / 2))\<close>\<close>
  "adaptive_k k = k div 2"

definition adaptive_std_ann :: "graph \<Rightarrow> nat \<Rightarrow> error + real list" where
  \<comment> \<open>the loop of the approximate branch: entry \<open>adaptive_k - 1\<close> of the sorted stored
      distances of each row\<close>
  "adaptive_std_ann akNN ak =
     sequence (map (\<lambda>i. py_index (sort (row_data akNN i)) (int ak - 1)) [0..<length akNN])"

definition adaptive_std_exact :: "nat \<Rightarrow> graph \<Rightarrow> real list" where
  \<comment> \<open>\<open>np.ravel(g.max(axis=1).todense())\<close> of a graph with \<open>n\<close> columns\<close>
  "adaptive_std_exact n g = map (sp_row_max n) g"

definition normalized :: "numerics \<Rightarrow> real list \<Rightarrow> ((nat \<times> nat) \<times> real) list
    \<Rightarrow> ((nat \<times> nat) \<times> npfloat) list" where
  \<comment> \<open>\<open>dists / adaptive_std[x]\<close>\<close>
  "normalized rnd std ts = map (\<lambda>(k, d). (k, np_div rnd (Fin d) (Fin (std ! fst k)))) ts"

definition weights :: "numerics \<Rightarrow> nat \<Rightarrow> graph \<Rightarrow> real list \<Rightarrow> matrix" where
  \<comment> \<open>\<open>x, y, dists = find(g); dists = dists / adaptive_std[x];
      W = csr_matrix((np.exp(-dists), (x, y)), shape=[N, N])\<close>\<close>
  "weights rnd n g std =
     coo_matrix (map (\<lambda>(k, d). (k, np_exp rnd (np_neg d))) (normalized rnd std (find_sp g n)))"

definition symmetrize :: "numerics \<Rightarrow> matrix \<Rightarrow> matrix" where
  \<comment> \<open>\<open>W + W.T\<close>\<close>
  "symmetrize rnd W = (\<lambda>i j. np_add rnd (W i j) (W j i))"

definition power_nonzero :: "numerics \<Rightarrow> real \<Rightarrow> vector \<Rightarrow> vector" where
  \<comment> \<open>\<open>D[D != 0] = D[D != 0] ** (-alpha)\<close>\<close>
  "power_nonzero rnd a D = (\<lambda>i. if np_ne0 (D i) then np_power rnd (D i) (- a) else D i)"

definition invert_nonzero :: "numerics \<Rightarrow> vector \<Rightarrow> vector" where
  \<comment> \<open>\<open>D[D != 0] = 1 / D[D != 0]\<close>\<close>
  "invert_nonzero rnd D = (\<lambda>i. if np_ne0 (D i) then np_div rnd (Fin 1) (D i) else D i)"

definition kernel_construction :: "numerics \<Rightarrow> nat \<Rightarrow> real \<Rightarrow> matrix \<Rightarrow> matrix" where
  \<comment> \<open>the kernel that the result holds: \<open>W + W.T\<close>, scaled on both sides when
      \<open>alpha > 0\<close>\<close>
  "kernel_construction rnd n a W =
     (let kern = symmetrize rnd W;
          D = row_sum rnd n kern
      in if 0 < a
         then let mat = power_nonzero rnd a D in dot_diag rnd (diag_dot rnd mat kern) mat
         else kern)"

definition kernel_degree :: "numerics \<Rightarrow> nat \<Rightarrow> real \<Rightarrow> matrix \<Rightarrow> vector" where
  \<comment> \<open>\<open>D\<close> before it is inverted: the row sums of the kernel that the result holds\<close>
  "kernel_degree rnd n a W = row_sum rnd n (kernel_construction rnd n a W)"

definition diffusion_operator :: "numerics \<Rightarrow> nat \<Rightarrow> real \<Rightarrow> matrix \<Rightarrow> matrix" where
  \<comment> \<open>\<open>T = csr_matrix((D, (range(N), range(N)))).dot(kernel)\<close>\<close>
  "diffusion_operator rnd n a W =
     diag_dot rnd (invert_nonzero rnd (kernel_degree rnd n a W)) (kernel_construction rnd n a W)"

definition normalize_column :: "numerics \<Rightarrow> npfloat list \<Rightarrow> npfloat list" where
  \<comment> \<open>\<open>V[:, i] / np.linalg.norm(V[:, i])\<close>\<close>
  "normalize_column rnd v = map (\<lambda>x. np_div rnd x (np_norm rnd v)) v"

definition eigen_stage :: "numerics \<Rightarrow> (complex \<times> complex list) list \<Rightarrow> real list \<times> npfloat list list" where
  \<comment> \<open>the real parts of the solver's eigenpairs, ordered by \<open>np.argsort(D)[::-1]\<close>, each
      vector divided by its norm\<close>
  "eigen_stage rnd pairs =
     (let D = map (\<lambda>(w, v). Re w) pairs;
          V = map (\<lambda>(w, v). map (\<lambda>z. Fin (Re z)) v) pairs;
          inds = rev (argsort rnd D)
      in (map (\<lambda>i. D ! i) inds, map (\<lambda>i. normalize_column rnd (V ! i)) inds))"

definition neighbors_ann :: "env \<Rightarrow> numerics \<Rightarrow> Diffusor \<Rightarrow> dataset \<Rightarrow> event list \<times> (error + matrix)" where
  \<comment> \<open>the branch \<open>self.ann == True\<close>, up to the matrix \<open>W\<close>\<close>
  "neighbors_ann ev rnd self data =
     (case NMSlibTransformer_init (dn_neighbors self) (ann_dist self) ''hnsw'' (dn_jobs self)
             (dM self) (defC self) (defS self) of
        Inl e \<Rightarrow> ([], Inl e)
      | Inr anbrs0 \<Rightarrow>
          (case NMSlibTransformer_fit anbrs0 data of
             Inl e \<Rightarrow> ([], Inl e)
           | Inr anbrs \<Rightarrow>
               let built = (case nmslib_index_of anbrs of
                              None \<Rightarrow> []
                            | Some idx \<Rightarrow> [IndexBuilt (idx_method idx) (idx_space idx)]);
                   (anbrs', r) = NMSlibTransformer_transform ev anbrs data;
                   trace = built @ [KnnQuery (n_neighbors anbrs')]
               in (case r of
                     Inl e \<Rightarrow> (trace, Inl e)
                   | Inr akNN \<Rightarrow>
                       (case adaptive_std_ann akNN (adaptive_k (dn_neighbors self)) of
                          Inl e \<Rightarrow> (trace, Inl e)
                        | Inr std \<Rightarrow> (trace, Inr (weights rnd (n_rows data) akNN std))))))"

definition neighbors_exact :: "env \<Rightarrow> numerics \<Rightarrow> Diffusor \<Rightarrow> dataset \<Rightarrow> event list \<times> (error + matrix)" where
  \<comment> \<open>the branch \<open>self.ann == False\<close>, up to the matrix \<open>W\<close>\<close>
  "neighbors_exact ev rnd self data =
     (let N = n_rows data
      in case kneighbors_graph ev (knn_dist self) (dn_neighbors self) data of
           Inl e \<Rightarrow> ([], Inl e)
         | Inr rows \<Rightarrow>
             let knn = map rows [0..<N];
                 ak = adaptive_k (dn_neighbors self);
                 t1 = [ExactSearch (knn_dist self) (dn_neighbors self)]
             in (case kneighbors_graph ev ''euclidean'' ak data of
                   Inl e \<Rightarrow> (t1, Inl e)
                 | Inr rows' \<Rightarrow>
                     (t1 @ [ExactSearch ''euclidean'' ak],
                      Inr (weights rnd N knn (adaptive_std_exact N (map rows' [0..<N]))))))"

definition fit_transform :: "env \<Rightarrow> numerics \<Rightarrow> Diffusor \<Rightarrow> dataset \<Rightarrow> event list \<times> (error + result_bundle)" where
  \<comment> \<open>\<open>Diffusor.fit_transform\<close>: the trace of the calls of the external libraries, and
      the result dictionary or the error raised\<close>
  "fit_transform ev rnd self data =
     (let N = n_rows data;
          (trace, r) = (if ann self then neighbors_ann ev rnd self data
                        else neighbors_exact ev rnd self data)
      in case r of
           Inl e \<Rightarrow> (trace, Inl e)
         | Inr W \<Rightarrow>
             let kern = kernel_construction rnd N (alpha self) W;
                 Tm = diffusion_operator rnd N (alpha self) W;
                 trace' = trace @ [EigsCall (n_components self)]
             in (case eigs ev Tm N (n_components self) of
                   Inl e \<Rightarrow> (trace', Inl e)
                 | Inr pairs \<Rightarrow>
                     let (D, V) = eigen_stage rnd pairs
                     in (trace', Inr \<lparr>T = Tm, EigenVectors = V, EigenValues = D, kernel = kern\<rparr>)))"

section \<open>Predicates and quantities of the statements\<close>

text \<open>
  The finite value of a number and the test for one; a matrix whose entries are all finite
  and not negative; a graph and a search library whose distances are not negative.
\<close>

definition val :: "npfloat \<Rightarrow> real" where
  "val x = (case x of Fin r \<Rightarrow> r | _ \<Rightarrow> 0)"

definition is_fin :: "npfloat \<Rightarrow> bool" where
  "is_fin x = (case x of Fin r \<Rightarrow> True | _ \<Rightarrow> False)"

definition finite_nonneg :: "matrix \<Rightarrow> bool" where
  "finite_nonneg A = (\<forall>i j. is_fin (A i j) \<and> 0 \<le> val (A i j))"

definition nonneg_graph :: "graph \<Rightarrow> bool" where
  "nonneg_graph g = (\<forall>row \<in> set g. \<forall>e \<in> set row. 0 \<le> snd e)"

definition nonneg_env :: "env \<Rightarrow> bool" where
  "nonneg_env ev =
     ((\<forall>idx efs data k jobs i. \<forall>e \<in> set (knnQueryBatch ev idx efs data k jobs i). 0 \<le> snd e)
    \<and> (\<forall>m k data rows i. kneighbors_graph ev m k data = Inr rows \<longrightarrow>
           (\<forall>e \<in> set (rows i). 0 \<le> snd e))
    \<and> (\<forall>d. 0 \<le> square32 ev d))"

text \<open>
  The contract of the eigensolver that the normalization relies on: no eigenvector it
  returns has a real part that is zero everywhere. (An eigenvector of a real matrix for a
  real eigenvalue is returned real, and one whose real part vanishes would make its
  eigenvalue real.)
\<close>

definition nonzero_real_parts :: "env \<Rightarrow> bool" where
  "nonzero_real_parts ev =
     (\<forall>A n k pairs. eigs ev A n k = Inr pairs \<longrightarrow> (\<forall>p \<in> set pairs. \<exists>z \<in> set (snd p). Re z \<noteq> 0))"

text \<open>
  The degree of a row in exact arithmetic, and the factor \<open>d ** (-a)\<close> that the
  anisotropic scaling gives a row of degree \<open>d\<close> (a row of degree 0 keeps the factor 0).
\<close>

definition deg :: "nat \<Rightarrow> matrix \<Rightarrow> nat \<Rightarrow> real" where
  "deg n A i = (\<Sum>j<n. val (A i j))"

definition scale :: "real \<Rightarrow> real \<Rightarrow> real" where
  \<comment> \<open>the factor of a row of degree \<open>d\<close>\<close>
  "scale a d = (if d = 0 then 0 else d powr (- a))"

section \<open>Example inputs\<close>

text \<open>
  The search library of the examples is a brute-force search on the first coordinate of
  the samples: it answers a query for sample \<open>i\<close> with the \<open>k\<close> samples nearest to it,
  in the order of their distance, the sample itself (distance 0) among them. Its exact
  search doubles the distances for every metric but the Euclidean one. Its eigensolver
  refuses \<open>k \<ge> n - 1\<close>, as scipy's does for a sparse matrix, and returns fixed eigenpairs
  otherwise. Its knee locator refuses an empty array and finds the knee 2 otherwise; its
  float32 square is the exact one. \<open>demo_data\<close> holds five samples at 0, 1, 2, 3 and 4; in \<open>dup_data\<close> the
  first sample is duplicated.
\<close>

definition coordinate :: "real list \<Rightarrow> real" where
  "coordinate s = (case s of [] \<Rightarrow> 0 | x # _ \<Rightarrow> x)"

definition line_knn :: "dataset \<Rightarrow> nat \<Rightarrow> nat \<Rightarrow> (nat \<times> real) list" where
  "line_knn data k i =
     take k (sort_key snd
       (map (\<lambda>j. (j, \<bar>coordinate (samples data ! i) - coordinate (samples data ! j)\<bar>))
          [0..<n_rows data]))"

definition demo_pairs :: "(complex \<times> complex list) list" where
  "demo_pairs =
     [(1 / 2, [3, 0, 4, 0, 0]),
      (1, [1, 1, 1, 1, 1]),
      (1 / 4, [0, 0, 0, 2, 0])]"

definition demo_env :: env where
  "demo_env =
     \<lparr>knnQueryBatch = (\<lambda>idx efs data k jobs i. line_knn data k i),
      kneighbors_graph = (\<lambda>m k data.
         if k = 0 \<or> n_rows data < k then Inl ValueError
         else Inr (\<lambda>i. if m = ''euclidean'' then line_knn data k i
                         else map (\<lambda>(j, d). (j, 2 * d)) (line_knn data k i))),
      eigs = (\<lambda>A n k. if n \<le> k + 1 then Inl TypeError else Inr (take k demo_pairs)),
      knee = (\<lambda>vals S. if vals = [] then Inl ValueError else Inr (Some 2)),
      square32 = (\<lambda>d. d ^ 2)\<rparr>"

definition demo_data :: dataset where
  "demo_data = \<lparr>is_sparse = True, samples = [[0], [1], [2], [3], [4]]\<rparr>"

definition dup_data :: dataset where
  "dup_data = \<lparr>is_sparse = True, samples = [[0], [0], [1], [2], [3]]\<rparr>"

definition demo_rows :: graph where
  "demo_rows = map (line_knn demo_data 5) [0..<5]"

definition dup_rows :: graph where
  "dup_rows = map (line_knn dup_data 5) [0..<5]"

definition demo_diffusor :: Diffusor where
  "demo_diffusor =
     \<lparr>n_components = 2, dn_neighbors = 4, alpha = 1, dn_jobs = - 2, ann = True,
      ann_dist = ''angular_sparse'', dM = 30, defC = 100, defS = 100, knn_dist = ''euclidean''\<rparr>"

section \<open>Observations and the spec's wording\<close>

text \<open>
  The two spaces of a fitted \<open>NMSlibTransformer(metric=metr)\<close>: the attribute \<open>space\<close>
  that the constructor looks up for the metric, and the space of the index that \<open>fit\<close>
  builds.
\<close>

definition fitted_spaces :: "string \<Rightarrow> dataset \<Rightarrow> error + string \<times> string" where
  "fitted_spaces metr data =
     (case NMSlibTransformer_init 30 metr ''hnsw'' (- 1) 30 100 100 of
        Inl e \<Rightarrow> Inl e
      | Inr t \<Rightarrow>
          (case NMSlibTransformer_fit t data of
             Inl e \<Rightarrow> Inl e
           | Inr t' \<Rightarrow>
               (case nmslib_index_of t' of
                  None \<Rightarrow> Inl AttributeError
                | Some idx \<Rightarrow> Inr (space t', idx_space idx))))"

text \<open>
  The bandwidth as the specification words it: the \<open>adaptive_k\<close>-th smallest of the
  nonzero distances of a row, a configuration error when the row has fewer.
\<close>

definition spec_adaptive_std :: "real list \<Rightarrow> nat \<Rightarrow> error + real" where
  "spec_adaptive_std row ak =
     (let nz = sort (filter (\<lambda>d. d \<noteq> 0) row)
      in if 1 \<le> ak \<and> ak \<le> length nz then Inr (nz ! (ak - 1)) else Inl ValueError)"

text \<open>
  The transformer that \<open>demo_diffusor\<close> constructs in its approximate branch, before and
  after \<open>fit\<close>.
\<close>

definition demo_transformer :: NMSlibTransformer where
  "demo_transformer =
     \<lparr>n_neighbors = 4, method_name = ''hnsw'', metric = ''angular_sparse'', n_jobs = - 2,
      M = 30, efC = 100, efS = 100, space = ''angulardist_sparse_fast'',
      n_samples_fit = None, nmslib_index_of = None\<rparr>"

definition demo_fitted :: "dataset \<Rightarrow> NMSlibTransformer" where
  "demo_fitted data =
     demo_transformer\<lparr>n_samples_fit := Some (n_rows data),
       nmslib_index_of := Some \<lparr>idx_method = ''hnsw'', idx_space = ''cosinesimil_sparse_fast'',
                                 idx_data = data, idx_params = (30, - 2, 100)\<rparr>\<rparr>"


text \<open>The calls of the trace that are neighbour searches.\<close>

fun is_search :: "event \<Rightarrow> bool" where
  "is_search (IndexBuilt m s) = True"
| "is_search (KnnQuery k) = True"
| "is_search (ExactSearch m k) = True"
| "is_search (EigsCall k) = False"

text \<open>
  A result bundle of two samples and three eigenpairs, and a \<open>multiscale\<close> object whose
  \<open>n_eigs\<close> is not given.
\<close>

definition demo_res :: result_bundle where
  "demo_res =
     \<lparr>T = (\<lambda>i j. Fin 0),
      EigenVectors = [[Fin 1, Fin 0], [Fin 0, Fin 1], [Fin (3 / 5), Fin (4 / 5)]],
      EigenValues = [1, 1 / 2, 1 / 4],
      kernel = (\<lambda>i j. Fin 0)\<rparr>"

definition demo_multiscale :: multiscale where
  "demo_multiscale = \<lparr>n_eigs = None, sensitivity = 1, plot = False\<rparr>"


text \<open>
  The example configuration with \<open>n_neighbors = 2\<close>: every bandwidth is the distance 0 of
  a sample to itself, and every sample is isolated.
\<close>

definition isolated_diffusor :: Diffusor where
  "isolated_diffusor = demo_diffusor\<lparr>dn_neighbors := 2\<rparr>"

section \<open>Rounding errors\<close>

text \<open>
  The contract of a summation order: every position of the array is added exactly once.
\<close>

definition adds_each_once :: "numerics \<Rightarrow> bool" where
  "adds_each_once rnd =
     (\<forall>xs. xs \<noteq> [] \<longrightarrow> distinct (terms (sum_order rnd xs))
                      \<and> set (terms (sum_order rnd xs)) = {..<length xs})"

text \<open>
  A result \<open>x\<close> is rounded accurately when the stored value is finite and differs from
  \<open>x\<close> by at most the relative error \<open>u\<close>: the operation neither overflows nor, for
  the unit roundoff \<open>u = 2\<^sup>-\<^sup>5\<^sup>3\<close> of float64, underflows. \<open>sum_accurate\<close> says so of
  every addition of a sum (adding zero does not round), and \<open>row_accurate\<close> of every
  rounding made for row \<open>i\<close> of the diffusion operator, given the kernel \<open>K\<close>: the
  additions of the degree, its reciprocal, and the products of the reciprocal with the
  stored entries of the row.
\<close>

definition accurate :: "numerics \<Rightarrow> real \<Rightarrow> real \<Rightarrow> bool" where
  "accurate rnd u x = (case round_to rnd x of Fin y \<Rightarrow> \<bar>y - x\<bar> \<le> u * \<bar>x\<bar> | _ \<Rightarrow> False)"

fun sum_accurate :: "numerics \<Rightarrow> real \<Rightarrow> npfloat list \<Rightarrow> sumtree \<Rightarrow> bool" where
  "sum_accurate rnd u xs (Term j) = True"
| "sum_accurate rnd u xs (Plus l r) =
     (sum_accurate rnd u xs l \<and> sum_accurate rnd u xs r
    \<and> (case (tree_sum rnd xs l, tree_sum rnd xs r) of
         (Fin x, Fin y) \<Rightarrow> x = 0 \<or> y = 0 \<or> accurate rnd u (x + y)
       | _ \<Rightarrow> False))"

definition row_accurate :: "numerics \<Rightarrow> real \<Rightarrow> nat \<Rightarrow> matrix \<Rightarrow> nat \<Rightarrow> bool" where
  "row_accurate rnd u n K i =
     (let xs = map (K i) [0..<n]
      in (xs \<noteq> [] \<longrightarrow> sum_accurate rnd u xs (sum_order rnd xs))
       \<and> (case row_sum rnd n K i of
            Fin d \<Rightarrow> d \<noteq> 0 \<longrightarrow>
              accurate rnd u (1 / d)
            \<and> (\<forall>j < n. K i j \<noteq> Fin 0 \<longrightarrow>
                  accurate rnd u (val (round_to rnd (1 / d)) * val (K i j)))
          | _ \<Rightarrow> False))"

text \<open>The value at position \<open>j\<close> of an array, 0 outside it.\<close>

definition term_val :: "npfloat list \<Rightarrow> nat \<Rightarrow> real" where
  "term_val xs j = (if j < length xs then val (xs ! j) else 0)"

text \<open>
  A matrix of weights of two samples whose only weight is the smallest positive float64
  number, \<open>2\<^sup>-\<^sup>1\<^sup>0\<^sup>7\<^sup>4\<close>, which \<open>exp\<close> returns for a normalized distance near 744.4.
\<close>

definition tiny_W :: matrix where
  "tiny_W = coo_matrix [((0, 1), Fin (2 powi (- 1074)))]"

section \<open>Exact arithmetic\<close>

lemma val_Fin [simp]: "val (Fin r) = r" by (simp add: val_def)

lemma is_fin_Fin [simp]: "is_fin (Fin r)" by (simp add: is_fin_def)

lemma is_fin_simps [simp]: "\<not> is_fin PInf" "\<not> is_fin NInf" "\<not> is_fin NaN" by (simp_all add: is_fin_def)

lemma is_finE: "is_fin x \<Longrightarrow> x = Fin (val x)" by (cases x) (simp_all add: is_fin_def)

lemma round_to_exact [simp]: "round_to exact x = Fin x"
  by (simp add: exact_def)

lemma sum_order_exact [simp]: "sum_order exact = left_to_right"
  by (simp add: exact_def)

lemma argsort_exact [simp]: "argsort exact = stable_argsort"
  by (simp add: exact_def)

lemma round_to_binary64 [simp]: "round_to binary64 = round64"
  by (simp add: binary64_def)

lemma sum_order_binary64 [simp]: "sum_order binary64 = left_to_right"
  by (simp add: binary64_def)

lemma np_add_exact [simp]: "np_add exact (Fin x) (Fin y) = Fin (x + y)"
  by simp

lemma np_mul_exact [simp]: "np_mul exact (Fin x) (Fin y) = Fin (x * y)"
  by simp

lemma terms_foldl: "terms (foldl (\<lambda>t j. Plus t (Term j)) t js) = terms t @ js"
  by (induction js arbitrary: t) simp_all

lemma terms_left_to_right: "xs \<noteq> [] \<Longrightarrow> terms (left_to_right xs) = [0..<length xs]"
  by (simp add: left_to_right_def terms_foldl upt_conv_Cons)

lemma tree_sum_exact:
  assumes "\<forall>x \<in> set xs. is_fin x"
  shows "tree_sum exact xs t = Fin (\<Sum>j\<leftarrow>terms t. if j < length xs then val (xs ! j) else 0)"
proof (induction t)
  case (Term j)
  show ?case using assms by (simp add: is_finE[symmetric])
next
  case (Plus l r)
  then show ?case by simp
qed

lemma np_sum_exact:
  assumes "\<forall>x \<in> set xs. is_fin x"
  shows "np_sum exact xs = Fin (sum_list (map val xs))"
proof (cases "xs = []")
  case True
  then show ?thesis by (simp add: np_sum_def)
next
  case False
  have "(\<Sum>j\<leftarrow>[0..<length xs]. if j < length xs then val (xs ! j) else 0)
      = (\<Sum>j\<leftarrow>[0..<length xs]. val (xs ! j))"
    by (rule arg_cong[where f = sum_list]) simp
  also have "map (\<lambda>j. val (xs ! j)) [0..<length xs] = map val (map (\<lambda>j. xs ! j) [0..<length xs])"
    by (simp only: map_map comp_def)
  also have "\<dots> = map val xs" by (simp only: map_nth)
  finally show ?thesis
    using False tree_sum_exact[OF assms, of "left_to_right xs"]
    by (simp add: np_sum_def terms_left_to_right)
qed

lemma row_sum_exact:
  assumes "\<forall>j < n. is_fin (A i j)"
  shows "row_sum exact n A i = Fin (\<Sum>j<n. val (A i j))"
proof -
  have "np_sum exact (map (A i) [0..<n]) = Fin (sum_list (map val (map (A i) [0..<n])))"
    by (rule np_sum_exact) (use assms in auto)
  also have "sum_list (map val (map (A i) [0..<n])) = (\<Sum>j<n. val (A i j))"
    by (simp add: interv_sum_list_conv_sum_set_nat comp_def atLeast0LessThan)
  finally show ?thesis by (simp add: row_sum_def)
qed

section \<open>The kernel and the diffusion operator in exact arithmetic\<close>

lemma finite_nonnegD: "finite_nonneg A \<Longrightarrow> A i j = Fin (val (A i j)) \<and> 0 \<le> val (A i j)"
  by (simp add: finite_nonneg_def is_finE[symmetric])

lemma np_add_commute: "np_add rnd x y = np_add rnd y x"
  by (cases x; cases y) (auto simp: add.commute)

lemma symmetrize_sym: "symmetrize rnd W i j = symmetrize rnd W j i"
  by (simp add: symmetrize_def np_add_commute)

lemma symmetrize_exact:
  assumes "finite_nonneg W"
  shows "symmetrize exact W i j = Fin (val (W i j) + val (W j i))"
proof -
  have "W i j = Fin (val (W i j))" "W j i = Fin (val (W j i))"
    using finite_nonnegD[OF assms] by auto
  then show ?thesis
    unfolding symmetrize_def by (metis np_add_exact)
qed

lemma symmetrize_nonneg: "finite_nonneg W \<Longrightarrow> finite_nonneg (symmetrize exact W)"
  unfolding finite_nonneg_def
  by (metis add_nonneg_nonneg finite_nonneg_def is_fin_Fin symmetrize_exact val_Fin)

lemma row_sum_nonneg:
  assumes "finite_nonneg A"
  shows "row_sum exact n A i = Fin (\<Sum>j<n. val (A i j))" "0 \<le> (\<Sum>j<n. val (A i j))"
proof -
  show "row_sum exact n A i = Fin (\<Sum>j<n. val (A i j))"
    by (rule row_sum_exact) (use assms in \<open>simp add: finite_nonneg_def\<close>)
  show "0 \<le> (\<Sum>j<n. val (A i j))"
    by (rule sum_nonneg) (use assms in \<open>simp add: finite_nonneg_def\<close>)
qed

lemma power_nonzero_exact:
  assumes "D i = Fin d" "0 \<le> d"
  shows "power_nonzero exact a D i = Fin (scale a d)" "0 \<le> scale a d"
  using assms by (auto simp: power_nonzero_def np_ne0_def scale_def)

lemma diag_dot_exact:
  assumes "is_fin (d i)" "is_fin (A i j)"
  shows "diag_dot exact d A i j = Fin (val (d i) * val (A i j))"
  using assms by (cases "d i"; cases "A i j") (simp_all add: diag_dot_def)

lemma dot_diag_exact:
  assumes "is_fin (d j)" "is_fin (A i j)"
  shows "dot_diag exact A d i j = Fin (val (A i j) * val (d j))"
  using assms by (cases "d j"; cases "A i j") (simp_all add: dot_diag_def)

lemma kernel_construction_exact:
  assumes "finite_nonneg W"
  shows "kernel_construction exact n a W i j =
    (let K = symmetrize exact W in
     if 0 < a then Fin (scale a (deg n K i) * val (K i j) * scale a (deg n K j))
     else Fin (val (K i j)))"
proof -
  let ?K = "symmetrize exact W"
  let ?m = "power_nonzero exact a (row_sum exact n ?K)"
  have K: "finite_nonneg ?K" by (rule symmetrize_nonneg[OF assms])
  have Kij: "?K i j = Fin (val (?K i j))" "is_fin (?K i j)" for i j
    using finite_nonnegD[OF K] K by (simp_all add: finite_nonneg_def)
  have D: "row_sum exact n ?K i = Fin (deg n ?K i)" "0 \<le> deg n ?K i" for i
    using row_sum_nonneg[OF K] by (simp_all add: deg_def)
  have P: "?m i = Fin (scale a (deg n ?K i))" for i
    using power_nonzero_exact(1)[of "row_sum exact n ?K" i "deg n ?K i" a] D by simp
  show ?thesis
  proof (cases "0 < a")
    case True
    have 1: "diag_dot exact ?m ?K i j = Fin (scale a (deg n ?K i) * val (?K i j))"
      by (simp add: diag_dot_exact P Kij(2))
    have "dot_diag exact (diag_dot exact ?m ?K) ?m i j
        = Fin (scale a (deg n ?K i) * val (?K i j) * scale a (deg n ?K j))"
      by (simp add: dot_diag_exact P 1)
    with True show ?thesis by (simp add: kernel_construction_def Let_def)
  next
    case False
    with Kij(1) show ?thesis by (simp add: kernel_construction_def Let_def)
  qed
qed

lemma scale_nonneg: "0 \<le> scale a d" by (simp add: scale_def)

lemma kernel_construction_nonneg:
  assumes "finite_nonneg W"
  shows "finite_nonneg (kernel_construction exact n a W)"
proof -
  have K: "finite_nonneg (symmetrize exact W)" by (rule symmetrize_nonneg[OF assms])
  have "0 \<le> val (symmetrize exact W i j)" for i j
    using finite_nonnegD[OF K] by simp
  then show ?thesis
    unfolding finite_nonneg_def
    by (simp add: kernel_construction_exact[OF assms] Let_def scale_nonneg)
qed


lemma deg_pos_iff:
  assumes "finite_nonneg A"
  shows "deg n A i \<noteq> 0 \<longleftrightarrow> (\<exists>j<n. val (A i j) \<noteq> 0)"
proof -
  have "(\<Sum>j<n. val (A i j)) = 0 \<longleftrightarrow> (\<forall>j\<in>{..<n}. val (A i j) = 0)"
    by (rule sum_nonneg_eq_0_iff) (use assms in \<open>simp_all add: finite_nonneg_def\<close>)
  then show ?thesis by (auto simp: deg_def)
qed

lemma scale_zero_iff: "0 \<le> d \<Longrightarrow> scale a d = 0 \<longleftrightarrow> d = 0"
  by (simp add: scale_def)

lemma val_symmetrize_commute:
  "finite_nonneg W \<Longrightarrow> val (symmetrize exact W i j) = val (symmetrize exact W j i)"
  by (simp add: symmetrize_sym[of exact W i j])

lemma kernel_degree_nonzero_iff:
  assumes W: "finite_nonneg W" and i: "i < n"
  shows "np_ne0 (kernel_degree exact n a W i) \<longleftrightarrow> (\<exists>j<n. W i j \<noteq> Fin 0 \<or> W j i \<noteq> Fin 0)"
proof -
  let ?K = "symmetrize exact W"
  let ?K2 = "kernel_construction exact n a W"
  have K: "finite_nonneg ?K" by (rule symmetrize_nonneg[OF W])
  have K2: "finite_nonneg ?K2" by (rule kernel_construction_nonneg[OF W])
  have dK: "0 \<le> deg n ?K i" for i using row_sum_nonneg(2)[OF K] by (simp add: deg_def)
  have D: "kernel_degree exact n a W i = Fin (deg n ?K2 i)"
    using row_sum_nonneg(1)[OF K2] by (simp add: deg_def kernel_degree_def)
  have valK: "val (?K i j) \<noteq> 0 \<longleftrightarrow> (W i j \<noteq> Fin 0 \<or> W j i \<noteq> Fin 0)" for i j
  proof -
    have a: "W i j = Fin (val (W i j))" "0 \<le> val (W i j)"
      and b: "W j i = Fin (val (W j i))" "0 \<le> val (W j i)"
      using finite_nonnegD[OF W] by auto
    have "val (?K i j) = val (W i j) + val (W j i)" by (simp add: symmetrize_exact[OF W])
    moreover have "val (W i j) + val (W j i) = 0 \<longleftrightarrow> val (W i j) = 0 \<and> val (W j i) = 0"
      using a(2) b(2) by linarith
    ultimately show ?thesis using a(1) b(1) by (metis npfloat.inject)
  qed
  have step: "val (?K2 i j) \<noteq> 0 \<longleftrightarrow> val (?K i j) \<noteq> 0" if "j < n" for j
  proof (cases "0 < a")
    case False
    then show ?thesis by (simp add: kernel_construction_exact[OF W] Let_def)
  next
    case True
    have "val (?K i j) \<noteq> 0 \<Longrightarrow> deg n ?K i \<noteq> 0"
      using deg_pos_iff[OF K, of n i] that by blast
    moreover have "val (?K i j) \<noteq> 0 \<Longrightarrow> deg n ?K j \<noteq> 0"
      using deg_pos_iff[OF K, of n j] i val_symmetrize_commute[OF W, of i j] by auto
    ultimately show ?thesis
      using True dK by (auto simp: kernel_construction_exact[OF W] Let_def scale_zero_iff)
  qed
  have "np_ne0 (kernel_degree exact n a W i) \<longleftrightarrow> deg n ?K2 i \<noteq> 0"
    by (simp add: D np_ne0_def)
  also have "\<dots> \<longleftrightarrow> (\<exists>j<n. val (?K2 i j) \<noteq> 0)" by (rule deg_pos_iff[OF K2])
  also have "\<dots> \<longleftrightarrow> (\<exists>j<n. val (?K i j) \<noteq> 0)" using step by blast
  also have "\<dots> \<longleftrightarrow> (\<exists>j<n. W i j \<noteq> Fin 0 \<or> W j i \<noteq> Fin 0)" using valK by blast
  finally show ?thesis .
qed

lemma diffusion_row:
  assumes "finite_nonneg W" "i < n"
  shows "(np_ne0 (kernel_degree exact n a W i) \<longrightarrow>
            np_sum exact (map (diffusion_operator exact n a W i) [0..<n]) = Fin 1)
       \<and> (\<not> np_ne0 (kernel_degree exact n a W i) \<longrightarrow>
            (\<forall>j. diffusion_operator exact n a W i j = Fin 0))"
proof -
  let ?K = "kernel_construction exact n a W"
  have K: "finite_nonneg ?K" by (rule kernel_construction_nonneg[OF assms(1)])
  have Kij: "?K i j = Fin (val (?K i j))" "is_fin (?K i j)" for i j
    using finite_nonnegD[OF K] K by (simp_all add: finite_nonneg_def)
  have D: "kernel_degree exact n a W i = Fin (deg n ?K i)"
    using row_sum_nonneg(1)[OF K] by (simp add: deg_def kernel_degree_def)
  show ?thesis
  proof (cases "deg n ?K i = 0")
    case True
    then have inv: "invert_nonzero exact (kernel_degree exact n a W) i = Fin 0"
      using D by (simp add: invert_nonzero_def np_ne0_def)
    have "diffusion_operator exact n a W i j = Fin 0" for j
      by (simp add: diffusion_operator_def diag_dot_exact inv Kij(2))
    with True D show ?thesis by (simp add: np_ne0_def)
  next
    case False
    then have inv: "invert_nonzero exact (kernel_degree exact n a W) i = Fin (1 / deg n ?K i)"
      using D by (simp add: invert_nonzero_def np_ne0_def)
    have Tij: "diffusion_operator exact n a W i j = Fin (1 / deg n ?K i * val (?K i j))" for j
      by (simp add: diffusion_operator_def diag_dot_exact inv Kij(2))
    have "row_sum exact n (diffusion_operator exact n a W) i
        = Fin (\<Sum>j<n. val (diffusion_operator exact n a W i j))"
      by (rule row_sum_exact) (simp add: Tij)
    also have "(\<Sum>j<n. val (diffusion_operator exact n a W i j)) = 1 / deg n ?K i * deg n ?K i"
      by (simp add: Tij deg_def sum_distrib_left)
    also have "\<dots> = 1" using False by simp
    finally show ?thesis using False D by (simp add: np_ne0_def row_sum_def)
  qed
qed

section \<open>The weights and the stages of fit_transform\<close>

lemma weights_eq:
  "weights rnd n g std i j =
     (if i < length g \<and> j < n \<and> entry g i j \<noteq> 0
      then np_exp rnd (np_neg (np_div rnd (Fin (entry g i j)) (Fin (std ! i))))
      else Fin 0)"
proof -
  let ?ks = "filter (\<lambda>k. entry g (fst k) (snd k) \<noteq> 0) (List.product [0..<length g] [0..<n])"
  let ?f = "\<lambda>k. np_exp rnd (np_neg (np_div rnd (Fin (entry g (fst k) (snd k))) (Fin (std ! fst k))))"
  have "map (\<lambda>(k, d). (k, np_exp rnd (np_neg d))) (normalized rnd std (find_sp g n))
      = map (\<lambda>k. (k, ?f k)) ?ks"
    by (simp add: normalized_def find_sp_def comp_def)
  then have "weights rnd n g std i j
      = (case ((Some \<circ> ?f) |` set ?ks) (i, j) of None \<Rightarrow> Fin 0 | Some v \<Rightarrow> v)"
    by (simp add: weights_def coo_matrix_def map_of_map_restrict)
  also have "\<dots> = (if (i, j) \<in> set ?ks then ?f (i, j) else Fin 0)"
    by (simp add: restrict_map_def)
  finally show ?thesis by auto
qed

lemma entry_nonneg:
  assumes "nonneg_graph g" "i < length g"
  shows "0 \<le> entry g i j"
proof -
  have "\<forall>e \<in> set (g ! i). 0 \<le> snd e"
    using assms by (auto simp: nonneg_graph_def)
  then show ?thesis
    unfolding entry_def by (intro sum_list_nonneg) auto
qed

lemma weights_finite_nonneg:
  assumes "nonneg_graph g"
  shows "finite_nonneg (weights exact n g std)"
  unfolding finite_nonneg_def
proof (intro allI)
  fix i j
  show "is_fin (weights exact n g std i j) \<and> 0 \<le> val (weights exact n g std i j)"
  proof (cases "i < length g \<and> j < n \<and> entry g i j \<noteq> 0")
    case False
    then have "weights exact n g std i j = Fin 0"
      unfolding weights_eq by (simp only: if_False)
    then show ?thesis by simp
  next
    case True
    then have pos: "0 < entry g i j"
      using entry_nonneg[OF assms, of i j] by simp
    show ?thesis
    proof (cases "std ! i = 0")
      case True
      with pos \<open>i < length g \<and> j < n \<and> entry g i j \<noteq> 0\<close> show ?thesis
        by (simp add: weights_eq inf_of_sign_def)
    next
      case False
      with \<open>i < length g \<and> j < n \<and> entry g i j \<noteq> 0\<close> show ?thesis
        by (simp add: weights_eq)
    qed
  qed
qed

lemma transform_eq:
  assumes "nmslib_index_of t = Some idx"
    and "map (knnQueryBatch ev idx (efS t) data (n_neighbors t + 1) (n_jobs t)) [0..<n_rows data] = res"
    and "res \<noteq> []" and "\<forall>r \<in> set res. length r = n_neighbors t + 1"
  shows "NMSlibTransformer_transform ev t data
       = (t\<lparr>n_neighbors := n_neighbors t + 1\<rparr>,
          Inr (if metric t = ''sqeuclidean'' then map (map (\<lambda>(j, d). (j, square32 ev d))) res else res))"
  using assms(3,4) unfolding assms(2)[symmetric] NMSlibTransformer_transform_def
  by (simp add: assms(1) Let_def)

lemma transform_nonneg:
  assumes "nonneg_env ev" "snd (NMSlibTransformer_transform ev t data) = Inr g"
  shows "nonneg_graph g"
proof -
  from assms(2) obtain idx where idx: "nmslib_index_of t = Some idx"
    by (auto simp: NMSlibTransformer_transform_def split: option.splits)
  let ?res = "map (knnQueryBatch ev idx (efS t) data (n_neighbors t + 1) (n_jobs t)) [0..<n_rows data]"
  have g: "g = (if metric t = ''sqeuclidean'' then map (map (\<lambda>(j, d). (j, square32 ev d))) ?res else ?res)"
    using assms(2) idx
    by (auto simp: NMSlibTransformer_transform_def Let_def split: if_splits)
  have "nonneg_graph ?res"
    using assms(1) by (auto simp: nonneg_graph_def nonneg_env_def)
  moreover have "nonneg_graph (map (map (\<lambda>(j, d). (j, square32 ev d))) ?res)"
    using assms(1) by (auto simp: nonneg_graph_def nonneg_env_def)
  ultimately show ?thesis using g by simp
qed

lemma neighbors_ann_weights:
  assumes "snd (neighbors_ann ev rnd self data) = Inr W"
  shows "\<exists>g std. W = weights rnd (n_rows data) g std \<and> (nonneg_env ev \<longrightarrow> nonneg_graph g)"
proof -
  from assms obtain anbrs anbrs' akNN std where
    "NMSlibTransformer_transform ev anbrs data = (anbrs', Inr akNN)"
    "W = weights rnd (n_rows data) akNN std"
    by (auto simp: neighbors_ann_def Let_def split: sum.splits prod.splits)
  then show ?thesis using transform_nonneg[of ev anbrs data akNN] by auto
qed

lemma neighbors_exact_weights:
  assumes "snd (neighbors_exact ev rnd self data) = Inr W"
  shows "\<exists>g std. W = weights rnd (n_rows data) g std \<and> (nonneg_env ev \<longrightarrow> nonneg_graph g)"
proof -
  from assms obtain rows rows' where
    r: "kneighbors_graph ev (knn_dist self) (dn_neighbors self) data = Inr rows"
    and W: "W = weights rnd (n_rows data) (map rows [0..<n_rows data])
               (adaptive_std_exact (n_rows data) (map rows' [0..<n_rows data]))"
    by (auto simp: neighbors_exact_def Let_def split: sum.splits)
  have "nonneg_env ev \<longrightarrow> nonneg_graph (map rows [0..<n_rows data])"
    using r by (auto simp: nonneg_graph_def nonneg_env_def)
  with W show ?thesis by blast
qed

lemma fit_transform_Inr:
  assumes "snd (fit_transform ev rnd self data) = Inr res"
  shows "\<exists>W pairs.
      snd (if ann self then neighbors_ann ev rnd self data else neighbors_exact ev rnd self data) = Inr W
    \<and> eigs ev (diffusion_operator rnd (n_rows data) (alpha self) W) (n_rows data) (n_components self) = Inr pairs
    \<and> T res = diffusion_operator rnd (n_rows data) (alpha self) W
    \<and> kernel res = kernel_construction rnd (n_rows data) (alpha self) W
    \<and> EigenValues res = fst (eigen_stage rnd pairs)
    \<and> EigenVectors res = snd (eigen_stage rnd pairs)"
  using assms unfolding fit_transform_def
  by (auto simp: Let_def split: sum.splits prod.splits if_splits)

section \<open>The examples evaluated\<close>

lemma upt_5: "[0..<5] = [0, 1, 2, 3, 4]"
  by (simp add: upt_rec)

lemma demo_rows_eq:
  "demo_rows =
     [[(0, 0), (1, 1), (2, 2), (3, 3), (4, 4)],
      [(1, 0), (0, 1), (2, 1), (3, 2), (4, 3)],
      [(2, 0), (1, 1), (3, 1), (0, 2), (4, 2)],
      [(3, 0), (2, 1), (4, 1), (1, 2), (0, 3)],
      [(4, 0), (3, 1), (2, 2), (1, 3), (0, 4)]]"
  by (simp add: demo_rows_def line_knn_def demo_data_def n_rows_def coordinate_def upt_5)

lemma dup_rows_eq:
  "dup_rows =
     [[(0, 0), (1, 0), (2, 1), (3, 2), (4, 3)],
      [(0, 0), (1, 0), (2, 1), (3, 2), (4, 3)],
      [(2, 0), (0, 1), (1, 1), (3, 1), (4, 2)],
      [(3, 0), (2, 1), (4, 1), (0, 2), (1, 2)],
      [(4, 0), (3, 1), (2, 2), (0, 3), (1, 3)]]"
  by (simp add: dup_rows_def line_knn_def dup_data_def n_rows_def coordinate_def upt_5)

lemma line_knn_nonneg: "e \<in> set (line_knn data k i) \<Longrightarrow> 0 \<le> snd e"
  by (auto simp: line_knn_def dest!: in_set_takeD)

lemma line_knn_length: "k \<le> n_rows data \<Longrightarrow> length (line_knn data k i) = k"
  by (simp add: line_knn_def)

lemma nonneg_demo_env: "nonneg_env demo_env"
  unfolding nonneg_env_def demo_env_def
  by (auto dest!: line_knn_nonneg split: if_splits)

lemma demo_std: "adaptive_std_ann demo_rows 2 = Inr [1, 1, 1, 1, 1]"
  by (simp add: adaptive_std_ann_def demo_rows_eq row_data_def py_index_def upt_5)

lemma dup_std: "adaptive_std_ann dup_rows 2 = Inr [0, 0, 1, 1, 1]"
  by (simp add: adaptive_std_ann_def dup_rows_eq row_data_def py_index_def upt_5)

lemma line_transform:
  assumes "nmslib_index_of t = Some idx" "n_neighbors t = 4" "metric t \<noteq> ''sqeuclidean''"
    and "n_rows data = 5"
  shows "NMSlibTransformer_transform demo_env t data
       = (t\<lparr>n_neighbors := 5\<rparr>, Inr (map (line_knn data 5) [0..<5]))"
proof -
  let ?g = "map (line_knn data 5) [0..<5]"
  have r: "map (knnQueryBatch demo_env idx (efS t) data (n_neighbors t + 1) (n_jobs t))
             [0..<n_rows data] = ?g"
    unfolding assms(2,4) by (simp add: demo_env_def)
  have len: "\<forall>r \<in> set ?g. length r = n_neighbors t + 1"
    by (simp add: line_knn_length assms(2,4))
  have ne: "?g \<noteq> []" by (simp add: upt_5)
  show ?thesis
    using transform_eq[OF assms(1) r ne len] assms(2,3) by simp
qed

lemma line_neighbors_ann:
  assumes "is_sparse data" "n_rows data = 5"
    and "adaptive_std_ann (map (line_knn data 5) [0..<5]) 2 = Inr std"
  shows "neighbors_ann demo_env rnd (demo_diffusor\<lparr>n_components := c\<rparr>) data =
     ([IndexBuilt ''hnsw'' ''cosinesimil_sparse_fast'', KnnQuery 5],
      Inr (weights rnd 5 (map (line_knn data 5) [0..<5]) std))"
proof -
  let ?t = "\<lparr>n_neighbors = 4, method_name = ''hnsw'', metric = ''angular_sparse'', n_jobs = - 2,
      M = 30, efC = 100, efS = 100, space = ''angulardist_sparse_fast'',
      n_samples_fit = None, nmslib_index_of = None\<rparr>"
  let ?idx = "\<lparr>idx_method = ''hnsw'', idx_space = ''cosinesimil_sparse_fast'',
      idx_data = data, idx_params = (30, - 2, 100)\<rparr>"
  let ?t' = "?t\<lparr>n_samples_fit := Some 5, nmslib_index_of := Some ?idx\<rparr>"
  have i: "NMSlibTransformer_init 4 ''angular_sparse'' ''hnsw'' (- 2) 30 100 100 = Inr ?t"
    by (simp add: NMSlibTransformer_init_def space_table_def)
  have f: "NMSlibTransformer_fit ?t data = Inr ?t'"
    by (simp add: NMSlibTransformer_fit_def assms(1,2))
  have t: "NMSlibTransformer_transform demo_env ?t' data
         = (?t'\<lparr>n_neighbors := 5\<rparr>, Inr (map (line_knn data 5) [0..<5]))"
    by (rule line_transform) (simp_all add: assms(2))
  show ?thesis
    unfolding neighbors_ann_def
    by (simp add: demo_diffusor_def i f[simplified] t[simplified] assms(2,3) adaptive_k_def)
qed

lemma line_fit_transform:
  assumes "is_sparse data" "n_rows data = 5"
    and "adaptive_std_ann (map (line_knn data 5) [0..<5]) 2 = Inr std"
  shows "fit_transform demo_env rnd (demo_diffusor\<lparr>n_components := c\<rparr>) data =
     ([IndexBuilt ''hnsw'' ''cosinesimil_sparse_fast'', KnnQuery 5, EigsCall c],
      if 5 \<le> c + 1 then Inl TypeError
      else Inr \<lparr>T = diffusion_operator rnd 5 1 (weights rnd 5 (map (line_knn data 5) [0..<5]) std),
          EigenVectors = snd (eigen_stage rnd (take c demo_pairs)),
          EigenValues = fst (eigen_stage rnd (take c demo_pairs)),
          kernel = kernel_construction rnd 5 1 (weights rnd 5 (map (line_knn data 5) [0..<5]) std)\<rparr>)"
proof -
  have d: "ann (demo_diffusor\<lparr>n_components := c\<rparr>)" "alpha (demo_diffusor\<lparr>n_components := c\<rparr>) = 1"
    by (simp_all add: demo_diffusor_def)
  have e: "eigs demo_env A 5 c = (if 5 \<le> c + 1 then Inl TypeError else Inr (take c demo_pairs))" for A
    by (simp add: demo_env_def)
  show ?thesis
    unfolding fit_transform_def
    by (simp add: line_neighbors_ann[OF assms] assms(2) d e Let_def split: prod.splits)
qed

lemma demo_fit_transform:
  "snd (fit_transform demo_env rnd demo_diffusor demo_data) =
     Inr \<lparr>T = diffusion_operator rnd 5 1 (weights rnd 5 demo_rows [1, 1, 1, 1, 1]),
          EigenVectors = snd (eigen_stage rnd (take 2 demo_pairs)),
          EigenValues = fst (eigen_stage rnd (take 2 demo_pairs)),
          kernel = kernel_construction rnd 5 1 (weights rnd 5 demo_rows [1, 1, 1, 1, 1])\<rparr>"
proof -
  have "is_sparse demo_data" "n_rows demo_data = 5"
    by (simp_all add: demo_data_def n_rows_def)
  from line_fit_transform[OF this, of "[1, 1, 1, 1, 1]" rnd 2] demo_std
  show ?thesis by (simp add: demo_rows_def demo_diffusor_def)
qed

lemma demo_weight_0_1: "weights exact 5 demo_rows [1, 1, 1, 1, 1] 0 1 = Fin (exp (- 1))"
  by (simp add: weights_eq demo_rows_eq entry_def)

section \<open>Order statistics and the bandwidth loop\<close>

lemma sequence_map_Inr: "sequence (map (\<lambda>i. Inr (f i)) xs) = Inr (map f xs)"
  by (induction xs) simp_all

lemma py_index_in_range:
  "1 \<le> k \<Longrightarrow> k \<le> length xs \<Longrightarrow> py_index xs (int k - 1) = Inr (xs ! (k - 1))"
  by (simp add: py_index_def nat_diff_distrib')

lemma length_filter_sort: "length (filter P (sort xs)) = length (filter P xs)"
  by (simp add: filter_sort)

lemma kth_smallest:
  fixes xs :: "real list"
  assumes "1 \<le> k" "k \<le> length xs"
  defines "v \<equiv> sort xs ! (k - 1)"
  shows "v \<in> set xs" "length (filter (\<lambda>d. d < v) xs) < k" "k \<le> length (filter (\<lambda>d. d \<le> v) xs)"
proof -
  let ?ys = "sort xs"
  have len: "length ?ys = length xs" by simp
  have srt: "sorted ?ys" by simp
  have k: "k - 1 < length ?ys" using assms by simp
  show "v \<in> set xs" using nth_mem[OF k] by (simp add: v_def)
  have split: "?ys = take (k - 1) ?ys @ drop (k - 1) ?ys" by simp
  have "\<forall>d \<in> set (drop (k - 1) ?ys). v \<le> d"
  proof
    fix d assume "d \<in> set (drop (k - 1) ?ys)"
    then obtain m where "m < length (drop (k - 1) ?ys)" "d = drop (k - 1) ?ys ! m"
      by (metis in_set_conv_nth)
    then have "d = ?ys ! (k - 1 + m)" "k - 1 + m < length ?ys" by auto
    then show "v \<le> d" using srt unfolding v_def by (simp add: sorted_nth_mono)
  qed
  then have "filter (\<lambda>d. d < v) (drop (k - 1) ?ys) = []"
    by (auto simp: filter_empty_conv)
  then have "filter (\<lambda>d. d < v) ?ys = filter (\<lambda>d. d < v) (take (k - 1) ?ys)"
    by (metis append_Nil2 append_take_drop_id filter_append)
  then have "length (filter (\<lambda>d. d < v) ?ys) \<le> k - 1"
    by (metis length_filter_le length_take min.cobounded2 order_trans)
  then show "length (filter (\<lambda>d. d < v) xs) < k"
    using assms(1) by (simp add: length_filter_sort)
  have "\<forall>d \<in> set (take k ?ys). d \<le> v"
  proof
    fix d assume "d \<in> set (take k ?ys)"
    then obtain m where m: "m < length (take k ?ys)" "d = take k ?ys ! m"
      by (metis in_set_conv_nth)
    then have "d = ?ys ! m" "m \<le> k - 1" by auto
    then show "d \<le> v" using srt k unfolding v_def by (simp add: sorted_nth_mono)
  qed
  then have "filter (\<lambda>d. d \<le> v) (take k ?ys) = take k ?ys"
    by (simp add: filter_id_conv)
  moreover have "length (filter (\<lambda>d. d \<le> v) (take k ?ys)) \<le> length (filter (\<lambda>d. d \<le> v) ?ys)"
    by (metis append_take_drop_id filter_append le_add1 length_append)
  ultimately have "k \<le> length (filter (\<lambda>d. d \<le> v) ?ys)"
    using assms(2) by simp
  then show "k \<le> length (filter (\<lambda>d. d \<le> v) xs)"
    by (simp add: length_filter_sort)
qed

section \<open>The index that fit builds\<close>

lemma fit_index_space:
  assumes "NMSlibTransformer_fit t data = Inr t'"
  shows "\<exists>idx. nmslib_index_of t' = Some idx \<and> idx_space idx = ''cosinesimil_sparse_fast''
            \<and> idx_method idx = ''hnsw'' \<and> space t' = space t"
  using assms by (auto simp: NMSlibTransformer_fit_def split: if_splits)

section \<open>The stored edges and the approximate branch\<close>

lemma normalized_eq:
  "map_of (normalized rnd std (find_sp g n)) (i, j) =
     (if i < length g \<and> j < n \<and> entry g i j \<noteq> 0
      then Some (np_div rnd (Fin (entry g i j)) (Fin (std ! i))) else None)"
proof -
  let ?ks = "filter (\<lambda>k. entry g (fst k) (snd k) \<noteq> 0) (List.product [0..<length g] [0..<n])"
  let ?f = "\<lambda>k. np_div rnd (Fin (entry g (fst k) (snd k))) (Fin (std ! fst k))"
  have "normalized rnd std (find_sp g n) = map (\<lambda>k. (k, ?f k)) ?ks"
    by (simp add: normalized_def find_sp_def comp_def)
  then have "map_of (normalized rnd std (find_sp g n)) (i, j) = ((Some \<circ> ?f) |` set ?ks) (i, j)"
    by (simp add: map_of_map_restrict)
  then show ?thesis by (auto simp: restrict_map_def)
qed

lemma find_sp_eq:
  "map_of (find_sp g n) (i, j) =
     (if i < length g \<and> j < n \<and> entry g i j \<noteq> 0 then Some (entry g i j) else None)"
proof -
  let ?ks = "filter (\<lambda>k. entry g (fst k) (snd k) \<noteq> 0) (List.product [0..<length g] [0..<n])"
  have "map_of (find_sp g n) (i, j) = ((Some \<circ> (\<lambda>k. entry g (fst k) (snd k))) |` set ?ks) (i, j)"
    by (simp add: find_sp_def map_of_map_restrict)
  then show ?thesis by (auto simp: restrict_map_def)
qed

lemma neighbors_ann_eq:
  assumes "NMSlibTransformer_init (dn_neighbors self) (ann_dist self) ''hnsw'' (dn_jobs self)
             (dM self) (defC self) (defS self) = Inr t0"
    and "NMSlibTransformer_fit t0 data = Inr t"
    and "NMSlibTransformer_transform ev t data = (t', Inr g)"
    and "adaptive_std_ann g (adaptive_k (dn_neighbors self)) = Inr std"
  shows "snd (neighbors_ann ev rnd self data) = Inr (weights rnd (n_rows data) g std)"
  unfolding neighbors_ann_def by (simp add: assms Let_def)

lemma demo_init:
  "NMSlibTransformer_init (dn_neighbors demo_diffusor) (ann_dist demo_diffusor) ''hnsw''
     (dn_jobs demo_diffusor) (dM demo_diffusor) (defC demo_diffusor) (defS demo_diffusor)
   = Inr demo_transformer"
  by (simp add: NMSlibTransformer_init_def space_table_def demo_diffusor_def demo_transformer_def)

lemma demo_fit: "is_sparse data \<Longrightarrow> NMSlibTransformer_fit demo_transformer data = Inr (demo_fitted data)"
  by (simp add: NMSlibTransformer_fit_def demo_fitted_def demo_transformer_def)

lemma demo_fitted_transform:
  assumes "n_rows data = 5"
  shows "NMSlibTransformer_transform demo_env (demo_fitted data) data
       = ((demo_fitted data)\<lparr>n_neighbors := 5\<rparr>, Inr (map (line_knn data 5) [0..<5]))"
  by (rule line_transform) (simp_all add: demo_fitted_def demo_transformer_def assms)

lemma dup_data_facts: "is_sparse dup_data" "n_rows dup_data = 5"
  by (simp_all add: dup_data_def n_rows_def)

section \<open>The exact branch\<close>





lemma demo_data_facts: "is_sparse demo_data" "n_rows demo_data = 5"
  by (simp_all add: demo_data_def n_rows_def)


section \<open>The trace of the neighbour stage\<close>

lemma init_error:
  "NMSlibTransformer_init k metr meth jobs m efc efs = Inl e
     \<Longrightarrow> e = KeyError \<and> map_of space_table metr = None"
  by (auto simp: NMSlibTransformer_init_def split: option.splits)

lemma fit_error: "NMSlibTransformer_fit t data = Inl e \<Longrightarrow> e = AttributeError \<and> \<not> is_sparse data"
  by (auto simp: NMSlibTransformer_fit_def split: if_splits)

lemma neighbors_ann_trace:
  "neighbors_ann ev rnd self data = (trace, r) \<Longrightarrow>
     (trace = [] \<and> (r = Inl KeyError \<and> map_of space_table (ann_dist self) = None
                    \<or> r = Inl AttributeError \<and> \<not> is_sparse data))
   \<or> (trace \<noteq> [] \<and> (\<forall>e \<in> set trace. is_search e))"
  unfolding neighbors_ann_def
  by (auto simp: Let_def split: sum.splits prod.splits option.splits
      dest: init_error fit_error)

lemma neighbors_exact_trace:
  "neighbors_exact ev rnd self data = (trace, r) \<Longrightarrow>
     (trace = [] \<and> (\<exists>e. r = Inl e))
   \<or> (trace \<noteq> [] \<and> (\<forall>e \<in> set trace. is_search e))"
  unfolding neighbors_exact_def
  by (auto simp: Let_def split: sum.splits)

lemma neighbors_ann_components:
  "neighbors_ann ev rnd (self\<lparr>n_components := c\<rparr>) data = neighbors_ann ev rnd self data"
  by (simp add: neighbors_ann_def Let_def split: sum.splits prod.splits)

lemma neighbors_exact_components:
  "neighbors_exact ev rnd (self\<lparr>n_components := c\<rparr>) data = neighbors_exact ev rnd self data"
  by (simp add: neighbors_exact_def Let_def split: sum.splits)

section \<open>multiscale.transform with a given dimension\<close>

lemma py_range_1: "1 \<le> m \<Longrightarrow> py_range 1 m = [1..<nat m]"
proof (rule nth_equalityI)
  assume m: "1 \<le> m"
  show "length (py_range 1 m) = length [1..<nat m]"
    using m by (simp add: py_range_def)
  fix k assume "k < length (py_range 1 m)"
  then have k: "k < nat (m - 1)" using m by (simp add: py_range_def)
  then have "[1..m - 1] ! k = 1 + int k" by (simp add: nth_upto)
  then have "py_range 1 m ! k = 1 + k"
    using k by (simp add: py_range_def)
  also have "\<dots> = [1..<nat m] ! k" using k m by simp
  finally show "py_range 1 m ! k = [1..<nat m] ! k" .
qed

lemma py_range_empty: "m < 1 \<Longrightarrow> py_range 1 m = []"
  by (simp add: py_range_def)

lemma scaled_columns_in_range:
  assumes "1 \<le> m" "nat m \<le> length (EigenValues res)"
    and "length (EigenVectors res) = length (EigenValues res)"
  shows "scaled_columns rnd res m =
     Inr (map (\<lambda>j. scale_column rnd (EigenVectors res ! j) (EigenValues res ! j)) [1..<nat m])"
proof -
  have "\<not> (\<exists>j \<in> set [1..<nat m]. length (EigenValues res) \<le> j)"
    using assms(2) by auto
  moreover have "\<not> (\<exists>j \<in> set [1..<nat m]. length (EigenVectors res) \<le> j)"
    using assms(2,3) by auto
  ultimately show ?thesis
    unfolding scaled_columns_def
    by (simp add: py_range_1[OF assms(1)] Let_def del: set_upt)
qed

lemma multiscale_transform_Some:
  assumes "n_eigs self = Some m" "1 \<le> m" "nat m \<le> length (EigenValues res)"
    and "length (EigenVectors res) = length (EigenValues res)"
  shows "multiscale_transform rnd self res =
     (self, Inr (map (\<lambda>j. scale_column rnd (EigenVectors res ! j) (EigenValues res ! j)) [1..<nat m]))"
  unfolding multiscale_transform_def
  by (simp add: assms(1) scaled_columns_in_range[OF assms(2-4)])

section \<open>Repeated calls\<close>

lemma demo_transform_selects:
  "multiscale_transform exact demo_multiscale demo_res
     = (demo_multiscale\<lparr>n_eigs := Some 3\<rparr>, scaled_columns exact demo_res 3)"
  by (simp add: multiscale_transform_def demo_multiscale_def demo_res_def gaps_def stable_argsort_def
      py_index_def upt_rec)

lemma transform_short:
  assumes "nmslib_index_of t = Some idx" and "i < n_rows data"
    and "length (knnQueryBatch ev idx (efS t) data (n_neighbors t + 1) (n_jobs t) i) \<noteq> n_neighbors t + 1"
  shows "snd (NMSlibTransformer_transform ev t data) = Inl ValueError"
  using assms(2,3) unfolding NMSlibTransformer_transform_def
  by (auto simp: assms(1) Let_def)

section \<open>Ordering and normalizing the eigenpairs\<close>

lemma np_sum_Fin: "np_sum exact (map Fin xs) = Fin (sum_list xs)"
  using np_sum_exact[of "map Fin xs"] by (simp add: comp_def)

lemma np_norm_Fin: "np_norm exact (map Fin xs) = Fin (sqrt (\<Sum>x\<leftarrow>xs. x * x))"
proof -
  have "map (\<lambda>x. np_mul exact x x) (map Fin xs) = map Fin (map (\<lambda>x. x * x) xs)"
    by simp
  then have "np_sum exact (map (\<lambda>x. np_mul exact x x) (map Fin xs)) = Fin (\<Sum>x\<leftarrow>xs. x * x)"
    by (simp only: np_sum_Fin)
  moreover have "0 \<le> (\<Sum>x\<leftarrow>xs. x * x)" by (rule sum_list_nonneg) auto
  ultimately show ?thesis by (simp add: np_norm_def)
qed

lemma sum_squares_pos:
  fixes xs :: "real list"
  assumes "\<exists>x \<in> set xs. x \<noteq> 0"
  shows "0 < (\<Sum>x\<leftarrow>xs. x * x)"
  using assms
proof (induction xs)
  case Nil
  then show ?case by simp
next
  case (Cons a xs)
  have nn: "0 \<le> (\<Sum>x\<leftarrow>xs. x * x)" by (rule sum_list_nonneg) auto
  show ?case
  proof (cases "a = 0")
    case True
    with Cons show ?thesis by auto
  next
    case False
    then have "0 < a * a" using not_real_square_gt_zero[of a] by blast
    with nn show ?thesis by simp
  qed
qed

lemma sum_list_divide: "(\<Sum>x\<leftarrow>xs. f x / c) = (\<Sum>x\<leftarrow>xs. f x) / (c::real)"
  by (induction xs) (simp_all add: add_divide_distrib)

lemma normalize_column_unit:
  assumes "\<exists>x \<in> set xs. x \<noteq> 0"
  shows "np_norm exact (normalize_column exact (map Fin xs)) = Fin 1"
proof -
  let ?q = "\<Sum>x\<leftarrow>xs. x * x"
  have q: "0 < ?q" by (rule sum_squares_pos[OF assms])
  then have s: "sqrt ?q \<noteq> 0" by simp
  have "normalize_column exact (map Fin xs) = map Fin (map (\<lambda>x. x / sqrt ?q) xs)"
    using s by (simp add: normalize_column_def np_norm_Fin)
  then have "np_norm exact (normalize_column exact (map Fin xs))
      = Fin (sqrt (\<Sum>x\<leftarrow>map (\<lambda>x. x / sqrt ?q) xs. x * x))"
    by (simp only: np_norm_Fin)
  also have "(\<Sum>x\<leftarrow>map (\<lambda>x. x / sqrt ?q) xs. x * x) = (\<Sum>x\<leftarrow>xs. (x * x) / ?q)"
    using q by (simp add: comp_def)
  also have "\<dots> = ?q / ?q" by (rule sum_list_divide)
  also have "\<dots> = 1" using q by simp
  finally show ?thesis by simp
qed

lemma argsort_values_sorted: "sorted_wrt (\<ge>) (map (\<lambda>i. D ! i) (rev (stable_argsort D)))"
proof -
  have "sorted (map (\<lambda>i. D ! i) (stable_argsort D))"
    unfolding stable_argsort_def by (rule sorted_sort_key)
  then show ?thesis by (simp add: rev_map[symmetric] sorted_wrt_rev)
qed

lemma set_argsort: "set (stable_argsort D) = {0..<length D}"
  by (simp add: stable_argsort_def)

lemma eigen_stage_sorted: "sorted_wrt (\<ge>) (fst (eigen_stage exact pairs))"
  by (simp add: eigen_stage_def Let_def argsort_values_sorted)

lemma eigen_stage_unit:
  assumes "\<forall>p \<in> set pairs. \<exists>z \<in> set (snd p). Re z \<noteq> 0"
    and "v \<in> set (snd (eigen_stage exact pairs))"
  shows "np_norm exact v = Fin 1"
proof -
  let ?D = "map (\<lambda>(w, v). Re w) pairs"
  let ?V = "map (\<lambda>(w, v). map (\<lambda>z. Fin (Re z)) v) pairs"
  from assms(2) obtain i where i: "i \<in> set (stable_argsort ?D)" and v: "v = normalize_column exact (?V ! i)"
    by (auto simp: eigen_stage_def Let_def)
  from i have il: "i < length pairs" by (simp add: set_argsort)
  obtain w zs where p: "pairs ! i = (w, zs)" by (cases "pairs ! i")
  have Vi: "?V ! i = map Fin (map Re zs)" using il p by (simp add: comp_def)
  have "(w, zs) \<in> set pairs" using il p by (metis nth_mem)
  with assms(1) have "\<exists>x \<in> set (map Re zs). x \<noteq> 0" by fastforce
  from normalize_column_unit[OF this] show ?thesis by (simp add: v Vi)
qed

lemma demo_eigen_values: "fst (eigen_stage exact (take 2 demo_pairs)) = [1, 1 / 2]"
  by (simp add: eigen_stage_def demo_pairs_def stable_argsort_def Let_def upt_rec)

lemma demo_nonzero_real_parts: "nonzero_real_parts demo_env"
  unfolding nonzero_real_parts_def demo_env_def
  by (auto simp: demo_pairs_def dest!: in_set_takeD split: if_splits)

section \<open>Rounding to binary64\<close>

lemma rne_bounds: "\<lfloor>q\<rfloor> \<le> rne q" "rne q \<le> \<lfloor>q\<rfloor> + 1"
  by (simp_all add: rne_def Let_def)

lemma round64_eval:
  assumes "2 powi e \<le> x" and "x < 2 powi (e + 1)" and "- 1022 \<le> e" and "e \<le> 1022"
  shows "round64 x = Fin (of_int (rne (x / 2 powi (e - 52))) * 2 powi (e - 52))"
proof -
  let ?ulp = "2 powi (e - 52) :: real"
  let ?q = "x / ?ulp"
  have x: "0 < x" using assms(1) by (smt (verit) zero_less_power_int)
  have p1: "(2::real) powr real_of_int e = 2 powi e"
    by (rule powr_real_of_int') simp_all
  have "(2::real) powr real_of_int (e + 1) = 2 powi (e + 1)"
    by (rule powr_real_of_int') simp_all
  then have p2: "(2::real) powr (real_of_int e + 1) = 2 powi (e + 1)" by simp
  have "\<lfloor>log 2 x\<rfloor> = e"
    using assms(1,2) x by (simp add: floor_log_eq_powr_iff p1 p2)
  then have e: "max \<lfloor>log 2 x\<rfloor> (- 1022) = e" using assms(3) by simp
  have ax: "\<bar>x\<bar> = x" using x by simp
  have ulp: "0 < ?ulp" by simp
  have "?q < 2 powi (e + 1) / ?ulp" using assms(2) ulp by (simp add: divide_strict_right_mono)
  also have "2 powi (e + 1) / ?ulp = (2::real) powi 53"
    by (simp add: power_int_diff[symmetric])
  finally have q1: "?q < 2 ^ 53" by simp
  have "0 \<le> ?q" using x ulp by simp
  then have n0: "0 \<le> rne ?q" using rne_bounds(1)[of ?q] by (smt (verit) zero_le_floor)
  have "\<lfloor>?q\<rfloor> < 2 ^ 53" using q1 by (simp add: floor_less_iff)
  then have "rne ?q \<le> 2 ^ 53" using rne_bounds(2)[of ?q] by linarith
  then have "real_of_int (rne ?q) \<le> 2 ^ 53" by (metis of_int_le_iff of_int_numeral of_int_power)
  then have "of_int (rne ?q) * ?ulp \<le> 2 ^ 53 * ?ulp" using ulp by (simp add: mult_right_mono)
  also have "2 ^ 53 * ?ulp = (2::real) powi (e + 1)"
    using power_int_add[of "2::real" 53 "e - 52"] by (simp add: add.commute)
  also have "\<dots> \<le> 2 powi 1023" using assms(4) by (intro power_int_increasing) auto
  also have "\<dots> < (2::real) ^ 1024" by simp
  finally have up: "of_int (rne ?q) * ?ulp < 2 ^ 1024" .
  have "0 \<le> of_int (rne ?q) * ?ulp" using n0 ulp by simp
  then have lo: "\<not> of_int (rne ?q) * ?ulp \<le> - (2 ^ 1024)" by (smt (verit) zero_less_power)
  show ?thesis
    unfolding round64_def ax e Let_def using x up lo by simp
qed














section \<open>The example with another alpha\<close>



section \<open>The example of isolated samples\<close>

lemma weights_zero_bandwidth:
  assumes "nonneg_graph g" and "i < length g \<longrightarrow> std ! i = 0"
  shows "weights rnd n g std i j = Fin 0"
proof (cases "i < length g \<and> j < n \<and> entry g i j \<noteq> 0")
  case False
  then show ?thesis unfolding weights_eq by (simp only: if_False)
next
  case True
  then have "0 < entry g i j" using entry_nonneg[OF assms(1), of i j] by simp
  with True assms(2) show ?thesis by (simp add: weights_eq inf_of_sign_def)
qed

lemma line_transform_k:
  assumes "nmslib_index_of t = Some idx" and "metric t \<noteq> ''sqeuclidean''"
    and "n_neighbors t + 1 \<le> n_rows data" and "0 < n_rows data"
  shows "NMSlibTransformer_transform demo_env t data
       = (t\<lparr>n_neighbors := n_neighbors t + 1\<rparr>,
          Inr (map (line_knn data (n_neighbors t + 1)) [0..<n_rows data]))"
proof -
  let ?g = "map (line_knn data (n_neighbors t + 1)) [0..<n_rows data]"
  have r: "map (knnQueryBatch demo_env idx (efS t) data (n_neighbors t + 1) (n_jobs t))
             [0..<n_rows data] = ?g"
    by (simp add: demo_env_def)
  have len: "\<forall>r \<in> set ?g. length r = n_neighbors t + 1"
    using assms(3) by (simp add: line_knn_length)
  have ne: "?g \<noteq> []" using assms(4) by simp
  show ?thesis
    using transform_eq[OF assms(1) r ne len] assms(2) by simp
qed

lemma isolated_rows:
  "map (line_knn demo_data 3) [0..<5] =
     [[(0, 0), (1, 1), (2, 2)], [(1, 0), (0, 1), (2, 1)], [(2, 0), (1, 1), (3, 1)],
      [(3, 0), (2, 1), (4, 1)], [(4, 0), (3, 1), (2, 2)]]"
  by (simp add: line_knn_def demo_data_def n_rows_def coordinate_def upt_5)

lemma isolated_std: "adaptive_std_ann (map (line_knn demo_data 3) [0..<5]) 1 = Inr [0, 0, 0, 0, 0]"
  unfolding isolated_rows
  by (simp add: adaptive_std_ann_def row_data_def py_index_def upt_5)

lemma isolated_fit_transform:
  "snd (fit_transform demo_env rnd isolated_diffusor demo_data) =
     Inr \<lparr>T = diffusion_operator rnd 5 1 (weights rnd 5 (map (line_knn demo_data 3) [0..<5]) [0, 0, 0, 0, 0]),
          EigenVectors = snd (eigen_stage rnd (take 2 demo_pairs)),
          EigenValues = fst (eigen_stage rnd (take 2 demo_pairs)),
          kernel = kernel_construction rnd 5 1
            (weights rnd 5 (map (line_knn demo_data 3) [0..<5]) [0, 0, 0, 0, 0])\<rparr>"
proof -
  let ?t = "\<lparr>n_neighbors = 2, method_name = ''hnsw'', metric = ''angular_sparse'', n_jobs = - 2,
      M = 30, efC = 100, efS = 100, space = ''angulardist_sparse_fast'',
      n_samples_fit = None, nmslib_index_of = None\<rparr>"
  let ?idx = "\<lparr>idx_method = ''hnsw'', idx_space = ''cosinesimil_sparse_fast'',
      idx_data = demo_data, idx_params = (30, - 2, 100)\<rparr>"
  let ?t' = "?t\<lparr>n_samples_fit := Some 5, nmslib_index_of := Some ?idx\<rparr>"
  have d: "ann isolated_diffusor" "alpha isolated_diffusor = 1" "n_components isolated_diffusor = 2"
    "dn_neighbors isolated_diffusor = 2"
    by (simp_all add: isolated_diffusor_def demo_diffusor_def)
  have i: "NMSlibTransformer_init (dn_neighbors isolated_diffusor) (ann_dist isolated_diffusor) ''hnsw''
      (dn_jobs isolated_diffusor) (dM isolated_diffusor) (defC isolated_diffusor)
      (defS isolated_diffusor) = Inr ?t"
    by (simp add: NMSlibTransformer_init_def space_table_def isolated_diffusor_def demo_diffusor_def)
  have f: "NMSlibTransformer_fit ?t demo_data = Inr ?t'"
    by (simp add: NMSlibTransformer_fit_def demo_data_facts)
  have "NMSlibTransformer_transform demo_env ?t' demo_data
         = (?t'\<lparr>n_neighbors := n_neighbors ?t' + 1\<rparr>,
            Inr (map (line_knn demo_data (n_neighbors ?t' + 1)) [0..<n_rows demo_data]))"
    by (rule line_transform_k) (simp_all add: demo_data_facts)
  then have t: "NMSlibTransformer_transform demo_env ?t' demo_data
         = (?t'\<lparr>n_neighbors := 3\<rparr>, Inr (map (line_knn demo_data 3) [0..<5]))"
    by (simp add: demo_data_facts)
  have s: "adaptive_std_ann (map (line_knn demo_data 3) [0..<5]) (adaptive_k (dn_neighbors isolated_diffusor))
      = Inr [0, 0, 0, 0, 0]"
    using isolated_std by (simp add: d adaptive_k_def)
  have W: "snd (neighbors_ann demo_env rnd isolated_diffusor demo_data)
      = Inr (weights rnd (n_rows demo_data) (map (line_knn demo_data 3) [0..<5]) [0, 0, 0, 0, 0])"
    by (rule neighbors_ann_eq[OF i f t s])
  have e: "eigs demo_env A 5 2 = Inr (take 2 demo_pairs)" for A
    by (simp add: demo_env_def)
  obtain tr where n: "neighbors_ann demo_env rnd isolated_diffusor demo_data
      = (tr, Inr (weights rnd 5 (map (line_knn demo_data 3) [0..<5]) [0, 0, 0, 0, 0]))"
    using W by (cases "neighbors_ann demo_env rnd isolated_diffusor demo_data")
      (simp add: demo_data_facts)
  show ?thesis
    unfolding fit_transform_def
    by (simp add: d n e demo_data_facts Let_def split: prod.splits)
qed

lemma isolated_weights:
  "weights rnd 5 (map (line_knn demo_data 3) [0..<5]) [0, 0, 0, 0, 0] i j = Fin 0"
proof (rule weights_zero_bandwidth)
  show "nonneg_graph (map (line_knn demo_data 3) [0..<5])"
    unfolding isolated_rows by (simp add: nonneg_graph_def)
  show "i < length (map (line_knn demo_data 3) [0..<5]) \<longrightarrow> [0, 0, 0, 0, 0] ! i = (0::real)"
    by (auto simp: nth_Cons' )
qed

section \<open>The stored edges of the exact branch\<close>

lemma neighbors_exact_eq:
  assumes "kneighbors_graph ev (knn_dist self) (dn_neighbors self) data = Inr rows"
    and "kneighbors_graph ev ''euclidean'' (adaptive_k (dn_neighbors self)) data = Inr rows'"
  shows "snd (neighbors_exact ev rnd self data)
       = Inr (weights rnd (n_rows data) (map rows [0..<n_rows data])
                (map (\<lambda>i. sp_row_max (n_rows data) (rows' i)) [0..<n_rows data]))"
  unfolding neighbors_exact_def
  by (simp add: assms Let_def adaptive_std_exact_def comp_def)

lemma zero_bandwidth_edge:
  assumes "nonneg_graph g" and "i < length g" and "std ! i = 0" and "j < n"
  shows "weights rnd n g std i j = Fin 0
     \<and> (entry g i j \<noteq> 0 \<longrightarrow> map_of (normalized rnd std (find_sp g n)) (i, j) = Some PInf)
     \<and> (entry g i j = 0 \<longrightarrow> map_of (find_sp g n) (i, j) = None)"
proof -
  have d: "0 \<le> entry g i j" by (rule entry_nonneg[OF assms(1,2)])
  have "entry g i j \<noteq> 0 \<Longrightarrow> np_div rnd (Fin (entry g i j)) (Fin (std ! i)) = PInf"
    using d assms(3) by (simp add: inf_of_sign_def)
  then have "weights rnd n g std i j = Fin 0"
    "entry g i j \<noteq> 0 \<longrightarrow> map_of (normalized rnd std (find_sp g n)) (i, j) = Some PInf"
    using assms(2,4) by (auto simp: weights_eq normalized_eq)
  moreover have "entry g i j = 0 \<longrightarrow> map_of (find_sp g n) (i, j) = None"
    by (simp add: find_sp_eq)
  ultimately show ?thesis by blast
qed

lemma dup_knn_4:
  "map (line_knn dup_data 4) [0..<5] =
     [[(0, 0), (1, 0), (2, 1), (3, 2)], [(0, 0), (1, 0), (2, 1), (3, 2)],
      [(2, 0), (0, 1), (1, 1), (3, 1)], [(3, 0), (2, 1), (4, 1), (0, 2)],
      [(4, 0), (3, 1), (2, 2), (0, 3)]]"
  by (simp add: line_knn_def dup_data_def n_rows_def coordinate_def upt_5)

lemma dup_knn_2:
  "map (line_knn dup_data 2) [0..<5] =
     [[(0, 0), (1, 0)], [(0, 0), (1, 0)], [(2, 0), (0, 1)], [(3, 0), (2, 1)], [(4, 0), (3, 1)]]"
  by (simp add: line_knn_def dup_data_def n_rows_def coordinate_def upt_5)

lemma dup_exact_std:
  "map (\<lambda>i. sp_row_max 5 (line_knn dup_data 2 i)) [0..<5] = [0, 0, 1, 1, 1]"
proof -
  have "map (\<lambda>i. sp_row_max 5 (line_knn dup_data 2 i)) [0..<5]
      = map (sp_row_max 5) (map (line_knn dup_data 2) [0..<5])"
    by simp
  also have "\<dots> = [0, 0, 1, 1, 1]"
    unfolding dup_knn_2 by (simp add: sp_row_max_def list_max_def)
  finally show ?thesis .
qed

lemma dup_exact_searches:
  "kneighbors_graph demo_env (knn_dist (demo_diffusor\<lparr>ann := False\<rparr>))
     (dn_neighbors (demo_diffusor\<lparr>ann := False\<rparr>)) dup_data = Inr (line_knn dup_data 4)"
  "kneighbors_graph demo_env ''euclidean'' (adaptive_k (dn_neighbors (demo_diffusor\<lparr>ann := False\<rparr>)))
     dup_data = Inr (line_knn dup_data 2)"
  by (simp_all add: demo_env_def demo_diffusor_def dup_data_facts adaptive_k_def)

lemma dup_neighbors_ann:
  "snd (neighbors_ann demo_env rnd demo_diffusor dup_data) = Inr (weights rnd 5 dup_rows [0, 0, 1, 1, 1])"
proof -
  have tr: "NMSlibTransformer_transform demo_env (demo_fitted dup_data) dup_data
       = ((demo_fitted dup_data)\<lparr>n_neighbors := 5\<rparr>, Inr dup_rows)"
    using demo_fitted_transform[OF dup_data_facts(2)] by (simp add: dup_rows_def)
  have std: "adaptive_std_ann dup_rows (adaptive_k (dn_neighbors demo_diffusor)) = Inr [0, 0, 1, 1, 1]"
    using dup_std by (simp add: adaptive_k_def demo_diffusor_def)
  from neighbors_ann_eq[OF demo_init demo_fit[OF dup_data_facts(1)] tr std, of rnd]
  show ?thesis by (simp add: dup_data_facts)
qed

lemma dup_neighbors_exact:
  "snd (neighbors_exact demo_env rnd (demo_diffusor\<lparr>ann := False\<rparr>) dup_data)
     = Inr (weights rnd 5 (map (line_knn dup_data 4) [0..<5]) [0, 0, 1, 1, 1])"
  using neighbors_exact_eq[OF dup_exact_searches, of rnd] dup_exact_std
  by (simp add: dup_data_facts)

section \<open>Sums and the diffusion operator under rounding\<close>

lemma accurateD:
  assumes "accurate rnd u x" "0 \<le> x" "0 \<le> u" "u < 1"
  shows "\<exists>y. round_to rnd x = Fin y \<and> (1 - u) * x \<le> y \<and> y * (1 - u) \<le> x"
proof -
  from assms(1) obtain y where y: "round_to rnd x = Fin y" "\<bar>y - x\<bar> \<le> u * \<bar>x\<bar>"
    by (auto simp: accurate_def split: npfloat.splits)
  then have 1: "(1 - u) * x \<le> y" and 2: "y \<le> (1 + u) * x"
    using assms(2) by (simp_all add: algebra_simps abs_le_iff)
  have "(1 + u) * (1 - u) \<le> 1" by (simp add: algebra_simps)
  then have "(1 + u) * (1 - u) * x \<le> 1 * x" using assms(2) by (intro mult_right_mono) auto
  moreover have "y * (1 - u) \<le> (1 + u) * x * (1 - u)"
    using 2 assms(4) by (intro mult_right_mono) auto
  ultimately have "y * (1 - u) \<le> x" by (simp add: algebra_simps)
  with y(1) 1 show ?thesis by blast
qed

lemma length_terms_pos: "0 < length (terms t)"
  by (induction t) simp_all

lemma tree_sum_bounds:
  fixes a :: real
  assumes u: "0 \<le> u" "u < 1"
    and fin: "\<forall>x \<in> set xs. \<exists>k. x = Fin k \<and> 0 \<le> k"
    and acc: "sum_accurate rnd u xs t"
  shows "\<exists>s. tree_sum rnd xs t = Fin s
           \<and> (1 - u) ^ length (terms t) * (\<Sum>j\<leftarrow>terms t. term_val xs j) \<le> s
           \<and> s * (1 - u) ^ length (terms t) \<le> (\<Sum>j\<leftarrow>terms t. term_val xs j)"
  using acc
proof (induction t)
  case (Term j)
  show ?case
  proof (cases "j < length xs")
    case True
    then obtain k where k: "xs ! j = Fin k" "0 \<le> k" using fin by (metis nth_mem)
    have "(1 - u) * k \<le> k" "k * (1 - u) \<le> k"
      using k(2) u by (simp_all add: mult_left_le_one_le mult_right_le_one_le)
    with True k show ?thesis by (simp add: term_val_def)
  next
    case False
    then show ?thesis by (simp add: term_val_def)
  qed
next
  case (Plus l r)
  let ?a = "1 - u"
  let ?nl = "length (terms l)" and ?nr = "length (terms r)"
  let ?Sl = "\<Sum>j\<leftarrow>terms l. term_val xs j" and ?Sr = "\<Sum>j\<leftarrow>terms r. term_val xs j"
  have a: "0 < ?a" "?a \<le> 1" using u by simp_all
  have tv: "0 \<le> term_val xs j" for j
    using fin by (auto simp: term_val_def) (metis nth_mem val_Fin)
  have Sl0: "0 \<le> ?Sl" and Sr0: "0 \<le> ?Sr" by (auto intro!: sum_list_nonneg tv)
  from Plus obtain sl sr where
    l: "tree_sum rnd xs l = Fin sl" "?a ^ ?nl * ?Sl \<le> sl" "sl * ?a ^ ?nl \<le> ?Sl"
    and r: "tree_sum rnd xs r = Fin sr" "?a ^ ?nr * ?Sr \<le> sr" "sr * ?a ^ ?nr \<le> ?Sr"
    by auto
  have pl: "0 < ?a ^ ?nl" "?a ^ ?nl \<le> 1" and pr: "0 < ?a ^ ?nr" "?a ^ ?nr \<le> 1"
    using a by (simp_all add: power_le_one)
  have sl0: "0 \<le> sl" using l(2) Sl0 pl(1) by (smt (verit) mult_nonneg_nonneg)
  have sr0: "0 \<le> sr" using r(2) Sr0 pr(1) by (smt (verit) mult_nonneg_nonneg)
  have len: "length (terms (Plus l r)) = ?nl + ?nr" by simp
  have S: "(\<Sum>j\<leftarrow>terms (Plus l r). term_val xs j) = ?Sl + ?Sr" by simp
  have pw: "?a ^ (?nl + ?nr) = ?a ^ ?nl * ?a ^ ?nr" by (simp add: power_add)
  consider (zl) "sl = 0" | (zr) "sl \<noteq> 0" "sr = 0" | (nz) "sl \<noteq> 0" "sr \<noteq> 0" by blast
  then show ?case
  proof cases
    case zl
    then have "?Sl = 0" using l(2) Sl0 pl(1)
      by (smt (verit) mult_pos_pos)
    have 1: "?a ^ (?nl + ?nr) * ?Sr \<le> ?a ^ ?nr * ?Sr"
      unfolding pw using pl pr Sr0 by (simp add: mult_left_le_one_le mult_nonneg_nonneg)
    have 2: "sr * ?a ^ (?nl + ?nr) \<le> sr * ?a ^ ?nr"
      unfolding pw using pl pr sr0
      by (smt (verit) mult_left_le_one_le mult.commute mult.left_commute mult_nonneg_nonneg)
    from zl l(1) r(1) have "tree_sum rnd xs (Plus l r) = Fin sr" by simp
    then show ?thesis
      unfolding len S \<open>?Sl = 0\<close> using 1 2 r(2,3) by auto
  next
    case zr
    then have "?Sr = 0" using r(2) Sr0 pr(1)
      by (smt (verit) mult_pos_pos)
    have 1: "?a ^ (?nl + ?nr) * ?Sl \<le> ?a ^ ?nl * ?Sl"
      unfolding pw using pl pr Sl0
      by (smt (verit) mult_left_le_one_le mult.commute mult.left_commute mult_nonneg_nonneg)
    have 2: "sl * ?a ^ (?nl + ?nr) \<le> sl * ?a ^ ?nl"
      unfolding pw using pl pr sl0
      by (smt (verit) mult_left_le_one_le mult.commute mult.left_commute mult_nonneg_nonneg)
    from zr l(1) r(1) have "tree_sum rnd xs (Plus l r) = Fin sl" by simp
    then show ?thesis
      unfolding len S \<open>?Sr = 0\<close> using 1 2 l(2,3) by auto
  next
    case nz
    with Plus.prems l(1) r(1) have "accurate rnd u (sl + sr)" by simp
    from accurateD[OF this _ u] sl0 sr0 obtain s where
      s: "round_to rnd (sl + sr) = Fin s" "?a * (sl + sr) \<le> s" "s * ?a \<le> sl + sr"
      by auto
    have ts: "tree_sum rnd xs (Plus l r) = Fin s" using nz l(1) r(1) s(1) by simp
    obtain ml where ml: "?nl = Suc ml" using length_terms_pos[of l] by (cases ?nl) auto
    obtain mr where mr: "?nr = Suc mr" using length_terms_pos[of r] by (cases ?nr) auto
    have p1: "?a ^ (?nl + ?nr) = ?a ^ mr * (?a * ?a ^ ?nl)"
      by (simp add: mr power_add mult_ac)
    have p2: "?a ^ (?nl + ?nr) = ?a ^ ml * (?a * ?a ^ ?nr)"
      by (simp add: ml power_add mult_ac)
    have pml: "0 \<le> ?a ^ ml" "?a ^ ml \<le> 1" and pmr: "0 \<le> ?a ^ mr" "?a ^ mr \<le> 1"
      using a by (simp_all add: power_le_one)
    have lo1: "?a ^ (?nl + ?nr) * ?Sl \<le> ?a * (?a ^ ?nl * ?Sl)"
    proof -
      have "?a ^ (?nl + ?nr) * ?Sl = ?a ^ mr * (?a * (?a ^ ?nl * ?Sl))"
        unfolding p1 by (simp only: mult.assoc)
      also have "\<dots> \<le> 1 * (?a * (?a ^ ?nl * ?Sl))"
        using pmr a Sl0 pl by (intro mult_right_mono) auto
      finally show ?thesis by simp
    qed
    have lo2: "?a ^ (?nl + ?nr) * ?Sr \<le> ?a * (?a ^ ?nr * ?Sr)"
    proof -
      have "?a ^ (?nl + ?nr) * ?Sr = ?a ^ ml * (?a * (?a ^ ?nr * ?Sr))"
        unfolding p2 by (simp only: mult.assoc)
      also have "\<dots> \<le> 1 * (?a * (?a ^ ?nr * ?Sr))"
        using pml a Sr0 pr by (intro mult_right_mono) auto
      finally show ?thesis by simp
    qed
    have "?a ^ (?nl + ?nr) * (?Sl + ?Sr) \<le> ?a * (?a ^ ?nl * ?Sl) + ?a * (?a ^ ?nr * ?Sr)"
      using lo1 lo2 by (simp add: algebra_simps)
    also have "\<dots> \<le> ?a * sl + ?a * sr"
      using l(2) r(2) a by (intro add_mono mult_left_mono) auto
    also have "\<dots> \<le> s" using s(2) by (simp add: algebra_simps)
    finally have lower: "?a ^ (?nl + ?nr) * (?Sl + ?Sr) \<le> s" .
    have s0: "0 \<le> s" using s(2) a sl0 sr0 by (smt (verit) mult_nonneg_nonneg)
    have "s * ?a ^ (?nl + ?nr) = (s * ?a) * (?a ^ ml * ?a ^ ?nr)"
      unfolding p2 by (simp only: mult_ac)
    also have "\<dots> \<le> (sl + sr) * (?a ^ ml * ?a ^ ?nr)"
      using s(3) pml pr by (intro mult_right_mono) auto
    also have "\<dots> = sl * (?a ^ ml * ?a ^ ?nr) + sr * (?a ^ ml * ?a ^ ?nr)"
      by (simp add: algebra_simps)
    also have "\<dots> \<le> sl * ?a ^ ?nl + sr * ?a ^ ?nr"
    proof (intro add_mono)
      have "?a ^ ml * ?a ^ ?nr \<le> ?a ^ ml * ?a"
        unfolding mr using pmr a pml by (simp add: mult_left_le_one_le mult_left_mono)
      then have "?a ^ ml * ?a ^ ?nr \<le> ?a ^ ?nl" by (simp add: ml mult.commute)
      then show "sl * (?a ^ ml * ?a ^ ?nr) \<le> sl * ?a ^ ?nl"
        using sl0 by (intro mult_left_mono)
      have "?a ^ ml * ?a ^ ?nr \<le> 1 * ?a ^ ?nr"
        using pml pr by (intro mult_right_mono) auto
      then show "sr * (?a ^ ml * ?a ^ ?nr) \<le> sr * ?a ^ ?nr"
        using sr0 by (intro mult_left_mono) auto
    qed
    also have "\<dots> \<le> ?Sl + ?Sr" using l(3) r(3) by simp
    finally have upper: "s * ?a ^ (?nl + ?nr) \<le> ?Sl + ?Sr" .
    show ?thesis unfolding len S using ts lower upper by blast
  qed
qed

lemma row_sum_bounds:
  assumes u: "0 \<le> u" "u < 1"
    and ord: "adds_each_once rnd"
    and n: "0 < n"
    and fin: "\<forall>j < n. \<exists>k. K i j = Fin k \<and> 0 \<le> k"
    and acc: "sum_accurate rnd u (map (K i) [0..<n]) (sum_order rnd (map (K i) [0..<n]))"
  shows "\<exists>d. row_sum rnd n K i = Fin d
           \<and> (1 - u) ^ n * (\<Sum>j<n. val (K i j)) \<le> d
           \<and> d * (1 - u) ^ n \<le> (\<Sum>j<n. val (K i j))"
proof -
  let ?xs = "map (K i) [0..<n]"
  let ?t = "sum_order rnd ?xs"
  have ne: "?xs \<noteq> []" using n by simp
  with ord have d: "distinct (terms ?t)" and s: "set (terms ?t) = {..<n}"
    by (auto simp: adds_each_once_def)
  have len: "length (terms ?t) = n"
    using distinct_card[OF d] s by simp
  have f: "\<forall>x \<in> set ?xs. \<exists>k. x = Fin k \<and> 0 \<le> k" using fin by auto
  have "(\<Sum>j\<leftarrow>terms ?t. term_val ?xs j) = (\<Sum>j\<in>set (terms ?t). term_val ?xs j)"
    by (rule sum_list_distinct_conv_sum_set[OF d])
  also have "\<dots> = (\<Sum>j<n. val (K i j))"
    unfolding s by (rule sum.cong) (simp_all add: term_val_def)
  finally have S: "(\<Sum>j\<leftarrow>terms ?t. term_val ?xs j) = (\<Sum>j<n. val (K i j))" .
  from tree_sum_bounds[OF u f acc] show ?thesis
    unfolding len S using ne by (simp add: row_sum_def np_sum_def)
qed

lemma operator_row:
  assumes u: "0 \<le> u" "u < 1"
    and ord: "adds_each_once rnd"
    and n: "0 < n"
    and fin: "\<forall>j < n. \<exists>k. K i j = Fin k \<and> 0 \<le> k"
    and acc: "row_accurate rnd u n K i"
  shows "(\<not> np_ne0 (row_sum rnd n K i) \<longrightarrow>
            (\<forall>j < n. diag_dot rnd (invert_nonzero rnd (row_sum rnd n K)) K i j = Fin 0))
       \<and> (np_ne0 (row_sum rnd n K i) \<longrightarrow>
            (\<forall>j < n. is_fin (diag_dot rnd (invert_nonzero rnd (row_sum rnd n K)) K i j))
          \<and> (1 - u) ^ (n + 2)
              \<le> (\<Sum>j<n. val (diag_dot rnd (invert_nonzero rnd (row_sum rnd n K)) K i j))
          \<and> (\<Sum>j<n. val (diag_dot rnd (invert_nonzero rnd (row_sum rnd n K)) K i j))
              * (1 - u) ^ (n + 2) \<le> 1)"
proof -
  let ?a = "1 - u"
  let ?S = "\<Sum>j<n. val (K i j)"
  let ?T = "diag_dot rnd (invert_nonzero rnd (row_sum rnd n K)) K"
  have a: "0 < ?a" "?a \<le> 1" using u by simp_all
  have an: "0 < ?a ^ n" using a by simp
  have ne: "map (K i) [0..<n] \<noteq> []" using n by simp
  from acc ne have sa: "sum_accurate rnd u (map (K i) [0..<n]) (sum_order rnd (map (K i) [0..<n]))"
    by (simp add: row_accurate_def Let_def)
  from row_sum_bounds[where K = K and i = i, OF u ord n fin sa] obtain d where
    d: "row_sum rnd n K i = Fin d" "?a ^ n * ?S \<le> d" "d * ?a ^ n \<le> ?S"
    by blast
  have k0: "0 \<le> val (K i j)" if "j < n" for j using fin that by auto
  have S0: "0 \<le> ?S" by (rule sum_nonneg) (simp add: k0)
  have d0: "0 \<le> d" using d(2) S0 an by (smt (verit) mult_nonneg_nonneg)
  show ?thesis
  proof (cases "d = 0")
    case True
    then have "?S \<le> 0" using d(2) an by (smt (verit) mult_pos_pos)
    with S0 have "?S = 0" by simp
    then have "\<forall>j\<in>{..<n}. val (K i j) = 0"
      using sum_nonneg_eq_0_iff[of "{..<n}" "\<lambda>j. val (K i j)"] k0 by simp
    then have z: "val (K i j) = 0" if "j < n" for j using that by simp
    have "K i j = Fin 0" if "j < n" for j
    proof -
      from fin that obtain k where "K i j = Fin k" by blast
      with z[OF that] show ?thesis by simp
    qed
    then have "\<forall>j < n. ?T i j = Fin 0" by (simp add: diag_dot_def)
    with True d(1) show ?thesis by (simp add: np_ne0_def)
  next
    case False
    with d0 have dp: "0 < d" by simp
    from acc d(1) False have a1: "accurate rnd u (1 / d)"
      and a2: "\<forall>j < n. K i j \<noteq> Fin 0 \<longrightarrow> accurate rnd u (val (round_to rnd (1 / d)) * val (K i j))"
      by (simp_all add: row_accurate_def Let_def)
    from accurateD[OF a1 _ u] dp obtain y where
      y: "round_to rnd (1 / d) = Fin y" "?a * (1 / d) \<le> y" "y * ?a \<le> 1 / d"
      by auto
    have y0: "0 < y" using y(2) a dp by (smt (verit) divide_pos_pos mult_pos_pos)
    have inv: "invert_nonzero rnd (row_sum rnd n K) i = Fin y"
      using d(1) False y(1) by (simp add: invert_nonzero_def np_ne0_def)
    have ent: "\<exists>t. ?T i j = Fin t \<and> ?a * (y * val (K i j)) \<le> t \<and> t * ?a \<le> y * val (K i j)"
      if j: "j < n" for j
    proof (cases "K i j = Fin 0")
      case True
      then show ?thesis by (simp add: diag_dot_def)
    next
      case nz: False
      from fin j obtain k where k: "K i j = Fin k" "0 \<le> k" by blast
      from a2 j nz have "accurate rnd u (val (round_to rnd (1 / d)) * val (K i j))" by blast
      then have "accurate rnd u (y * k)" by (simp add: y(1) k(1))
      from accurateD[OF this _ u] y0 k(2) obtain t where
        "round_to rnd (y * k) = Fin t" "?a * (y * k) \<le> t" "t * ?a \<le> y * k"
        by auto
      with nz k inv show ?thesis by (simp add: diag_dot_def)
    qed
    have fins: "\<forall>j < n. is_fin (?T i j)" using ent by fastforce
    have lo: "?a * (y * val (K i j)) \<le> val (?T i j)" if "j < n" for j
      using ent[OF that] by auto
    have hi: "val (?T i j) * ?a \<le> y * val (K i j)" if "j < n" for j
      using ent[OF that] by auto
    let ?R = "\<Sum>j<n. val (?T i j)"
    have "(\<Sum>j<n. ?a * (y * val (K i j))) \<le> ?R"
      by (rule sum_mono) (simp add: lo)
    then have L1: "?a * y * ?S \<le> ?R" by (simp add: sum_distrib_left mult.assoc)
    have "(\<Sum>j<n. val (?T i j) * ?a) \<le> (\<Sum>j<n. y * val (K i j))"
      by (rule sum_mono) (simp add: hi)
    then have U1: "?R * ?a \<le> y * ?S" by (simp add: sum_distrib_left sum_distrib_right)
    have yd: "?a \<le> y * d" using y(2) dp by (simp add: field_simps)
    have yd': "y * ?a * d \<le> 1" using y(3) dp by (simp add: field_simps)
    have "?a ^ (n + 2) = ?a * ?a * ?a ^ n" by (simp add: power2_eq_square)
    also have "\<dots> \<le> ?a * (y * d) * ?a ^ n"
      using yd a an by (intro mult_right_mono mult_left_mono) auto
    also have "\<dots> = ?a * y * (d * ?a ^ n)" by simp
    also have "\<dots> \<le> ?a * y * ?S"
      using d(3) a y0 by (intro mult_left_mono) auto
    also have "\<dots> \<le> ?R" by (rule L1)
    finally have lower: "?a ^ (n + 2) \<le> ?R" .
    have R0: "0 \<le> ?R" using lower a by (smt (verit) zero_le_power)
    have "?R * ?a ^ (n + 2) = (?R * ?a) * (?a * ?a ^ n)" by (simp add: power2_eq_square)
    also have "\<dots> \<le> (y * ?S) * (?a * ?a ^ n)"
      using U1 a an by (intro mult_right_mono) auto
    also have "\<dots> = (y * ?a) * (?a ^ n * ?S)" by simp
    also have "\<dots> \<le> (y * ?a) * d"
      using d(2) y0 a by (intro mult_left_mono) auto
    also have "\<dots> \<le> 1" using yd' by simp
    finally have upper: "?R * ?a ^ (n + 2) \<le> 1" .
    from d(1) False fins lower upper show ?thesis by (simp add: np_ne0_def)
  qed
qed

lemma bernoulli_tolerance:
  fixes u :: real
  assumes "0 \<le> u" "u < 1"
  shows "1 - real (n + 2) * u \<le> (1 - u) ^ (n + 2)"
  using Bernoulli_inequality[of "- u" "n + 2"] assms by simp

lemma adds_each_once_exact: "adds_each_once exact"
  by (simp add: adds_each_once_def terms_left_to_right lessThan_atLeast0)

lemma adds_each_once_binary64: "adds_each_once binary64"
  by (simp add: adds_each_once_def terms_left_to_right lessThan_atLeast0)

lemma accurate_exact [simp]: "accurate exact u x \<longleftrightarrow> 0 \<le> u * \<bar>x\<bar>"
  by (simp add: accurate_def)

lemma sum_accurate_exact:
  assumes "\<forall>x \<in> set xs. is_fin x"
  shows "sum_accurate exact 0 xs t"
  by (induction t) (simp_all add: tree_sum_exact[OF assms])

lemma row_accurate_exact:
  assumes "\<forall>j < n. is_fin (K i j)"
  shows "row_accurate exact 0 n K i"
proof -
  have "\<forall>x \<in> set (map (K i) [0..<n]). is_fin x" using assms by auto
  from sum_accurate_exact[OF this] row_sum_exact[where A = K and i = i, OF assms] show ?thesis
    by (simp add: row_accurate_def Let_def)
qed

section \<open>The accuracy of binary64\<close>

lemma rne_error: "\<bar>real_of_int (rne q) - q\<bar> \<le> 1 / 2"
proof -
  have "0 \<le> q - of_int \<lfloor>q\<rfloor>" "q - of_int \<lfloor>q\<rfloor> < 1" by linarith+
  then show ?thesis by (auto simp: rne_def Let_def)
qed

lemma powi2_less_imp: "(2::real) powi m < 2 powi n \<Longrightarrow> m < n"
  using power_int_increasing[of n m "2::real"] by (cases "m < n") auto

lemma abs_scaled_error:
  fixes c r x :: real
  assumes "0 < c"
  shows "\<bar>r * c - x\<bar> = \<bar>r - x / c\<bar> * c"
proof -
  have "(r - x / c) * c = r * c - x" using assms by (simp add: field_simps)
  then have "\<bar>r * c - x\<bar> = \<bar>(r - x / c) * c\<bar>" by simp
  also have "\<dots> = \<bar>r - x / c\<bar> * c" using assms by (simp add: abs_mult)
  finally show ?thesis .
qed

lemma round64_accurate:
  assumes "2 powi (- 1022) \<le> x" and "x < 2 powi 1023"
  shows "\<exists>y. round_to binary64 x = Fin y \<and> \<bar>y - x\<bar> \<le> 2 powi (- 53) * x"
proof -
  have x: "0 < x" using assms(1) by (smt (verit) zero_less_power_int)
  define e where "e = \<lfloor>log 2 x\<rfloor>"
  have p: "(2::real) powr real_of_int k = 2 powi k" for k
    by (rule powr_real_of_int') simp_all
  have "2 powr real_of_int e \<le> x \<and> x < 2 powr (real_of_int e + 1)"
    using floor_log_eq_powr_iff[of x 2 e] x by (simp add: e_def)
  then have b: "2 powi e \<le> x" "x < 2 powi (e + 1)"
    using p[of e] p[of "e + 1"] by simp_all
  have "2 powi (- 1022) < (2::real) powi (e + 1)" using assms(1) b(2) by linarith
  then have "- 1022 < e + 1" by (rule powi2_less_imp)
  then have lo: "- 1022 \<le> e" by simp
  have "(2::real) powi e < 2 powi 1023" using assms(2) b(1) by linarith
  then have "e < 1023" by (rule powi2_less_imp)
  then have hi: "e \<le> 1022" by simp
  let ?ulp = "2 powi (e - 52) :: real"
  let ?y = "of_int (rne (x / ?ulp)) * ?ulp"
  have r: "round64 x = Fin ?y" by (rule round64_eval[OF b lo hi])
  have ulp: "0 < ?ulp" by simp
  have "\<bar>?y - x\<bar> = \<bar>of_int (rne (x / ?ulp)) - x / ?ulp\<bar> * ?ulp"
    by (rule abs_scaled_error[OF ulp])
  also have "\<dots> \<le> 1 / 2 * ?ulp"
    using rne_error[of "x / ?ulp"] ulp by (intro mult_right_mono) auto
  also have "1 / 2 * ?ulp = 2 powi (- 53) * 2 powi e"
    by (simp add: power_int_diff power_int_minus field_simps)
  also have "\<dots> \<le> 2 powi (- 53) * x"
    using b(1) by (intro mult_left_mono) auto
  finally show ?thesis using r by simp
qed

lemma accurate_binary64:
  assumes "2 powi (- 1022) \<le> x" and "x < 2 powi 1023"
  shows "accurate binary64 (2 powi (- 53)) x"
proof -
  have x: "0 < x" using assms(1) by (smt (verit) zero_less_power_int)
  from round64_accurate[OF assms] x show ?thesis by (auto simp: accurate_def)
qed

lemma round64_overflow:
  assumes "2 ^ 1024 \<le> x"
  shows "round64 x = PInf"
proof -
  have x: "0 < x" using assms by (smt (verit) zero_less_power)
  define e where "e = \<lfloor>log 2 x\<rfloor>"
  have p: "(2::real) powr real_of_int k = 2 powi k" for k
    by (rule powr_real_of_int') simp_all
  have "2 powr real_of_int e \<le> x \<and> x < 2 powr (real_of_int e + 1)"
    using floor_log_eq_powr_iff[of x 2 e] x by (simp add: e_def)
  then have b: "2 powi e \<le> x" "x < 2 powi (e + 1)"
    using p[of e] p[of "e + 1"] by simp_all
  have "(2::real) powi 1024 < 2 powi (e + 1)" using assms b(2) by simp
  then have "1024 < e + 1" by (rule powi2_less_imp)
  then have e: "1024 \<le> e" by simp
  then have m: "max e (- 1022) = e" by simp
  let ?ulp = "2 powi (e - 52) :: real"
  have ulp: "0 < ?ulp" by simp
  have B: "(2::real) ^ 52 * ?ulp = 2 powi e"
    using power_int_add[of "2::real" 52 "e - 52"] by simp
  then have "2 ^ 52 \<le> x / ?ulp" using b(1) ulp by (simp add: pos_le_divide_eq)
  then have "2 ^ 52 \<le> \<lfloor>x / ?ulp\<rfloor>" by (simp add: le_floor_iff)
  then have "2 ^ 52 \<le> rne (x / ?ulp)" using rne_bounds(1)[of "x / ?ulp"] by linarith
  then have "(2::real) ^ 52 \<le> of_int (rne (x / ?ulp))"
    by (metis of_int_le_iff of_int_numeral of_int_power)
  then have "2 ^ 52 * ?ulp \<le> of_int (rne (x / ?ulp)) * ?ulp"
    using ulp by (intro mult_right_mono) auto
  then have "2 powi e \<le> of_int (rne (x / ?ulp)) * ?ulp"
    unfolding B .
  moreover have "(2::real) powi 1024 \<le> 2 powi e"
    using e by (intro power_int_increasing) auto
  ultimately have "2 ^ 1024 \<le> of_int (rne (x / ?ulp)) * ?ulp" by simp
  moreover have ax: "\<bar>x\<bar> = x" using x by simp
  ultimately show ?thesis
    unfolding round64_def ax e_def[symmetric] m Let_def using x by simp
qed

section \<open>The example of a degree that underflows\<close>

lemma left_to_right_2: "left_to_right [a, b] = Plus (Term 0) (Term 1)"
  by (simp add: left_to_right_def upt_rec)

lemma upt_2: "[0..<2] = [0, Suc 0]"
  by (simp add: upt_rec)

lemma tiny_kernel:
  "symmetrize binary64 tiny_W 0 0 = Fin 0"
  "symmetrize binary64 tiny_W 0 (Suc 0) = Fin (2 powi (- 1074))"
  "symmetrize binary64 tiny_W (Suc 0) 0 = Fin (2 powi (- 1074))"
  "symmetrize binary64 tiny_W (Suc 0) (Suc 0) = Fin 0"
  by (simp_all add: symmetrize_def tiny_W_def coo_matrix_def)

lemma tiny_degree:
  "row_sum binary64 2 (symmetrize binary64 tiny_W) 0 = Fin (2 powi (- 1074))"
  "row_sum binary64 2 (symmetrize binary64 tiny_W) (Suc 0) = Fin (2 powi (- 1074))"
  by (simp_all add: row_sum_def np_sum_def upt_2 left_to_right_2 tiny_kernel)

lemma tiny_reciprocal: "round64 (1 / 2 powi (- 1074)) = PInf"
  by (rule round64_overflow) (simp add: power_int_minus)

lemma tiny_factor:
  "power_nonzero binary64 1 (row_sum binary64 2 (symmetrize binary64 tiny_W)) 0 = PInf"
  "power_nonzero binary64 1 (row_sum binary64 2 (symmetrize binary64 tiny_W)) (Suc 0) = PInf"
  using tiny_reciprocal
  by (simp_all add: power_nonzero_def tiny_degree np_ne0_def powr_minus inverse_eq_divide)

lemma tiny_scaled:
  "kernel_construction binary64 2 1 tiny_W 0 0 = Fin 0"
  "kernel_construction binary64 2 1 tiny_W 0 (Suc 0) = PInf"
  by (simp_all add: kernel_construction_def Let_def dot_diag_def diag_dot_def tiny_kernel tiny_factor
      inf_of_sign_def)
section \<open>The diffusion operator is row-stochastic\<close>

text \<open>
  Claim C1 says that, for every input that \<open>Diffusor.fit_transform\<close> processes, every row
  of the diffusion operator \<open>T\<close> whose kernel degree is not zero sums to 1 within
  floating-point tolerance, and every row whose kernel degree is zero is all zero. The
  kernel degree of a row is the sum of that row of the kernel held by the result (the
  vector \<open>D\<close> of the source before it is inverted). The code inverts the degree and
  raises it to the power \<open>-alpha\<close> without a guard against overflow. For two samples with
  the single weight \<open>2\<^sup>-\<^sup>1\<^sup>0\<^sup>7\<^sup>4\<close>, under float64: with \<open>alpha = 0\<close> the degree of row 0
  is that weight, its reciprocal overflows to \<open>+inf\<close> and the row of \<open>T\<close> holds \<open>+inf\<close>;
  with \<open>alpha = 1\<close> the scaling factor overflows, the kernel holds \<open>+inf\<close>, the degree
  is \<open>+inf\<close>, its reciprocal is 0 and the row of \<open>T\<close> holds \<open>0 * inf = NaN\<close>.
\<close>

theorem inverse_degree_overflows:
  "kernel_degree binary64 2 0 tiny_W 0 = Fin (2 powi (- 1074))
   \<and> np_ne0 (kernel_degree binary64 2 0 tiny_W 0)
   \<and> diffusion_operator binary64 2 0 tiny_W 0 1 = PInf
   \<and> kernel_degree binary64 2 1 tiny_W 0 = PInf
   \<and> np_ne0 (kernel_degree binary64 2 1 tiny_W 0)
   \<and> diffusion_operator binary64 2 1 tiny_W 0 1 = NaN"
proof -
  have k0: "kernel_construction binary64 2 0 tiny_W = symmetrize binary64 tiny_W"
    by (simp add: kernel_construction_def)
  have d0: "kernel_degree binary64 2 0 tiny_W 0 = Fin (2 powi (- 1074))"
    by (simp add: kernel_degree_def k0 tiny_degree)
  have t0: "diffusion_operator binary64 2 0 tiny_W 0 (Suc 0) = PInf"
    using tiny_reciprocal
    by (simp add: diffusion_operator_def diag_dot_def invert_nonzero_def d0 np_ne0_def k0
        tiny_kernel inf_of_sign_def)
  have d1: "kernel_degree binary64 2 1 tiny_W 0 = PInf"
    by (simp add: kernel_degree_def row_sum_def np_sum_def upt_2 left_to_right_2 tiny_scaled)
  have t1: "diffusion_operator binary64 2 1 tiny_W 0 (Suc 0) = NaN"
    by (simp add: diffusion_operator_def diag_dot_def invert_nonzero_def d1 np_ne0_def
        tiny_scaled inf_of_sign_def)
  show ?thesis using d0 t0 d1 t1 by (simp add: np_ne0_def)
qed

text \<open>
  Claim C1 as amended. Let row \<open>i\<close> of the kernel held by the result be finite and not
  negative, and let every rounding made for row \<open>i\<close> of \<open>T\<close> (the additions of the
  degree, in whatever order they are made, the reciprocal of the degree and its products
  with the stored entries) have a relative error of at most \<open>u < 1\<close>: none overflows
  or underflows. Then, if the kernel degree of row \<open>i\<close> is zero, the row of \<open>T\<close> is all
  zero; and if it is not zero, the entries of the row are finite and their sum \<open>s\<close> is 1
  within the tolerance \<open>(N + 2) u\<close>: \<open>1 - (N + 2) u \<le> s\<close> and
  \<open>s (1 - (N + 2) u) \<le> 1\<close>. For float64, \<open>u = 2\<^sup>-\<^sup>5\<^sup>3\<close>; in exact arithmetic,
  \<open>u = 0\<close> and the sum is exactly 1.
\<close>

theorem diffusion_operator_row_stochastic:
  assumes "snd (fit_transform ev rnd self data) = Inr res"
    and "adds_each_once rnd"
    and "0 \<le> u" and "u < 1"
    and "i < n_rows data"
    and "\<forall>j < n_rows data. \<exists>k. kernel res i j = Fin k \<and> 0 \<le> k"
    and "row_accurate rnd u (n_rows data) (kernel res) i"
  shows "(\<not> np_ne0 (row_sum rnd (n_rows data) (kernel res) i) \<longrightarrow>
            (\<forall>j < n_rows data. T res i j = Fin 0))
       \<and> (np_ne0 (row_sum rnd (n_rows data) (kernel res) i) \<longrightarrow>
            (\<forall>j < n_rows data. is_fin (T res i j))
          \<and> 1 - real (n_rows data + 2) * u \<le> (\<Sum>j<n_rows data. val (T res i j))
          \<and> (\<Sum>j<n_rows data. val (T res i j)) * (1 - real (n_rows data + 2) * u) \<le> 1)"
proof -
  let ?n = "n_rows data"
  let ?R = "\<Sum>j<?n. val (T res i j)"
  from fit_transform_Inr[OF assms(1)] obtain W where
    T: "T res = diffusion_operator rnd ?n (alpha self) W"
    and K: "kernel res = kernel_construction rnd ?n (alpha self) W"
    by blast
  have Tm: "T res = diag_dot rnd (invert_nonzero rnd (row_sum rnd ?n (kernel res))) (kernel res)"
    by (simp add: T K diffusion_operator_def kernel_degree_def)
  have n: "0 < ?n" using assms(5) by simp
  note row = operator_row[where K = "kernel res" and i = i, OF assms(3,4,2) n assms(6,7),
      folded Tm]
  have zero: "\<not> np_ne0 (row_sum rnd ?n (kernel res) i) \<longrightarrow> (\<forall>j < ?n. T res i j = Fin 0)"
    using row by blast
  have "(\<forall>j < ?n. is_fin (T res i j)) \<and> 1 - real (?n + 2) * u \<le> ?R
      \<and> ?R * (1 - real (?n + 2) * u) \<le> 1"
    if ne: "np_ne0 (row_sum rnd ?n (kernel res) i)"
  proof -
    from row ne have f: "\<forall>j < ?n. is_fin (T res i j)"
      and lo: "(1 - u) ^ (?n + 2) \<le> ?R" and hi: "?R * (1 - u) ^ (?n + 2) \<le> 1"
      by blast+
    have b: "1 - real (?n + 2) * u \<le> (1 - u) ^ (?n + 2)"
      by (rule bernoulli_tolerance[OF assms(3,4)])
    have R0: "0 \<le> ?R" using lo assms(4) by (smt (verit) zero_le_power)
    have "?R * (1 - real (?n + 2) * u) \<le> ?R * (1 - u) ^ (?n + 2)"
      using b R0 by (rule mult_left_mono)
    with hi have up: "?R * (1 - real (?n + 2) * u) \<le> 1" by linarith
    from lo b have "1 - real (?n + 2) * u \<le> ?R" by linarith
    with f up show ?thesis by blast
  qed
  with zero show ?thesis by blast
qed

theorem diffusion_operator_row_stochastic_witness:
  "adds_each_once exact
   \<and> (\<exists>res. snd (fit_transform demo_env exact demo_diffusor demo_data) = Inr res
        \<and> np_ne0 (row_sum exact (n_rows demo_data) (kernel res) 0)
        \<and> (\<Sum>j<n_rows demo_data. val (T res 0 j)) = 1)
   \<and> (\<exists>res. snd (fit_transform demo_env exact isolated_diffusor demo_data) = Inr res
        \<and> \<not> np_ne0 (row_sum exact (n_rows demo_data) (kernel res) 0)
        \<and> T res 0 1 = Fin 0)"
proof -
  let ?W = "weights exact 5 demo_rows [1, 1, 1, 1, 1]"
  let ?res = "\<lparr>T = diffusion_operator exact 5 1 ?W,
          EigenVectors = snd (eigen_stage exact (take 2 demo_pairs)),
          EigenValues = fst (eigen_stage exact (take 2 demo_pairs)),
          kernel = kernel_construction exact 5 1 ?W\<rparr>"
  have n: "n_rows demo_data = 5" by (simp add: n_rows_def demo_data_def)
  have i: "0 < n_rows demo_data" by (simp add: n)
  have u: "(0::real) \<le> 0" "(0::real) < 1" by simp_all
  have res: "snd (fit_transform demo_env exact demo_diffusor demo_data) = Inr ?res"
    by (rule demo_fit_transform)
  have W: "finite_nonneg ?W"
    by (rule weights_finite_nonneg) (simp add: nonneg_graph_def demo_rows_eq)
  have K: "finite_nonneg (kernel ?res)"
    using kernel_construction_nonneg[OF W, of 5 1] by simp
  have fin: "\<forall>j < n_rows demo_data. \<exists>k. kernel ?res 0 j = Fin k \<and> 0 \<le> k"
    using finite_nonnegD[OF K] by blast
  have acc: "row_accurate exact 0 (n_rows demo_data) (kernel ?res) 0"
    by (rule row_accurate_exact) (use K in \<open>simp add: finite_nonneg_def\<close>)
  have "np_ne0 (kernel_degree exact 5 1 ?W 0)"
    using kernel_degree_nonzero_iff[of ?W 0 5 1] W demo_weight_0_1 by auto
  then have ne: "np_ne0 (row_sum exact (n_rows demo_data) (kernel ?res) 0)"
    by (simp add: kernel_degree_def n)
  from diffusion_operator_row_stochastic[OF res adds_each_once_exact u i fin acc] ne
  have "1 - real (n_rows demo_data + 2) * 0 \<le> (\<Sum>j<n_rows demo_data. val (T ?res 0 j))"
    and "(\<Sum>j<n_rows demo_data. val (T ?res 0 j)) * (1 - real (n_rows demo_data + 2) * 0) \<le> 1"
    by blast+
  then have "(\<Sum>j<n_rows demo_data. val (T ?res 0 j)) = 1" by simp
  with res ne have 1: "\<exists>res. snd (fit_transform demo_env exact demo_diffusor demo_data) = Inr res
        \<and> np_ne0 (row_sum exact (n_rows demo_data) (kernel res) 0)
        \<and> (\<Sum>j<n_rows demo_data. val (T res 0 j)) = 1"
    by blast
  let ?Z = "weights exact 5 (map (line_knn demo_data 3) [0..<5]) [0, 0, 0, 0, 0]"
  let ?iso = "\<lparr>T = diffusion_operator exact 5 1 ?Z,
          EigenVectors = snd (eigen_stage exact (take 2 demo_pairs)),
          EigenValues = fst (eigen_stage exact (take 2 demo_pairs)),
          kernel = kernel_construction exact 5 1 ?Z\<rparr>"
  have iso: "snd (fit_transform demo_env exact isolated_diffusor demo_data) = Inr ?iso"
    by (rule isolated_fit_transform)
  have Z: "finite_nonneg ?Z"
    by (simp add: finite_nonneg_def isolated_weights)
  have KZ: "finite_nonneg (kernel ?iso)"
    using kernel_construction_nonneg[OF Z, of 5 1] by simp
  have finz: "\<forall>j < n_rows demo_data. \<exists>k. kernel ?iso 0 j = Fin k \<and> 0 \<le> k"
    using finite_nonnegD[OF KZ] by blast
  have accz: "row_accurate exact 0 (n_rows demo_data) (kernel ?iso) 0"
    by (rule row_accurate_exact) (use KZ in \<open>simp add: finite_nonneg_def\<close>)
  have "\<not> np_ne0 (kernel_degree exact 5 1 ?Z 0)"
    using kernel_degree_nonzero_iff[of ?Z 0 5 1] Z by (simp add: isolated_weights)
  then have z: "\<not> np_ne0 (row_sum exact (n_rows demo_data) (kernel ?iso) 0)"
    by (simp add: kernel_degree_def n)
  from diffusion_operator_row_stochastic[OF iso adds_each_once_exact u i finz accz] z
  have "\<forall>j < n_rows demo_data. T ?iso 0 j = Fin 0" by blast
  then have "T ?iso 0 1 = Fin 0" by (simp add: n)
  with iso z have 2: "\<exists>res. snd (fit_transform demo_env exact isolated_diffusor demo_data) = Inr res
        \<and> \<not> np_ne0 (row_sum exact (n_rows demo_data) (kernel res) 0)
        \<and> T res 0 1 = Fin 0"
    by blast
  show ?thesis using adds_each_once_exact 1 2 by blast
qed

section \<open>Symmetry of the kernel\<close>



section \<open>A bandwidth of zero\<close>

text \<open>
  Claim C3 says that a stored edge whose bandwidth \<open>\<sigma>\<^sub>i\<close> is 0 gets the normalized
  distance 0 and so the weight \<open>exp(0) = 1\<close>, and that a duplicated point raises no division
  error. Both branches divide without a guard. In \<open>dup_data\<close> sample 1 duplicates sample 0,
  and with \<open>n_neighbors = 4\<close> the bandwidth of row 0 is 0 in the approximate branch (the
  second smallest stored distance) and in the exact branch (the largest distance to the two
  nearest samples): in both the edge (0, 2) of distance 1 is normalized to \<open>+inf\<close> and weighs
  \<open>exp(-inf) = 0\<close>, and the edge (0, 1) to the duplicate, of distance 0, is not among the
  entries that \<open>find\<close> returns and weighs 0 as well.
\<close>

theorem dup_zero_bandwidth_weight:
  "snd (neighbors_ann demo_env binary64 demo_diffusor dup_data)
     = Inr (weights binary64 5 dup_rows [0, 0, 1, 1, 1])
   \<and> adaptive_std_ann dup_rows (adaptive_k 4) = Inr [0, 0, 1, 1, 1]
   \<and> entry dup_rows 0 2 = 1
   \<and> map_of (normalized binary64 [0, 0, 1, 1, 1] (find_sp dup_rows 5)) (0, 2) = Some PInf
   \<and> weights binary64 5 dup_rows [0, 0, 1, 1, 1] 0 2 = Fin 0
   \<and> entry dup_rows 0 1 = 0
   \<and> map_of (find_sp dup_rows 5) (0, 1) = None
   \<and> weights binary64 5 dup_rows [0, 0, 1, 1, 1] 0 1 = Fin 0
   \<and> snd (neighbors_exact demo_env binary64 (demo_diffusor\<lparr>ann := False\<rparr>) dup_data)
     = Inr (weights binary64 5 (map (line_knn dup_data 4) [0..<5]) [0, 0, 1, 1, 1])
   \<and> adaptive_std_exact 5 (map (line_knn dup_data 2) [0..<5]) = [0, 0, 1, 1, 1]
   \<and> entry (map (line_knn dup_data 4) [0..<5]) 0 2 = 1
   \<and> map_of (normalized binary64 [0, 0, 1, 1, 1] (find_sp (map (line_knn dup_data 4) [0..<5]) 5)) (0, 2)
     = Some PInf
   \<and> weights binary64 5 (map (line_knn dup_data 4) [0..<5]) [0, 0, 1, 1, 1] 0 2 = Fin 0"
proof -
  have k: "adaptive_k 4 = 2" by (simp add: adaptive_k_def)
  have e: "entry dup_rows 0 2 = 1" "entry dup_rows 0 1 = 0"
    by (simp_all add: entry_def dup_rows_eq)
  have l: "length dup_rows = 5" by (simp add: dup_rows_eq)
  have ann: "adaptive_std_ann dup_rows (adaptive_k 4) = Inr [0, 0, 1, 1, 1]
     \<and> entry dup_rows 0 2 = 1
     \<and> map_of (normalized binary64 [0, 0, 1, 1, 1] (find_sp dup_rows 5)) (0, 2) = Some PInf
     \<and> weights binary64 5 dup_rows [0, 0, 1, 1, 1] 0 2 = Fin 0
     \<and> entry dup_rows 0 1 = 0
     \<and> map_of (find_sp dup_rows 5) (0, 1) = None
     \<and> weights binary64 5 dup_rows [0, 0, 1, 1, 1] 0 1 = Fin 0"
    unfolding k
    by (simp add: dup_std e e(2)[unfolded One_nat_def] l normalized_eq find_sp_eq weights_eq
        inf_of_sign_def)
  have s: "adaptive_std_exact 5 (map (line_knn dup_data 2) [0..<5]) = [0, 0, 1, 1, 1]"
    unfolding dup_knn_2 by (simp add: adaptive_std_exact_def sp_row_max_def list_max_def)
  have e': "entry (map (line_knn dup_data 4) [0..<5]) 0 2 = 1"
    unfolding dup_knn_4 by (simp add: entry_def)
  have ex: "map_of (normalized binary64 [0, 0, 1, 1, 1] (find_sp (map (line_knn dup_data 4) [0..<5]) 5)) (0, 2)
       = Some PInf
     \<and> weights binary64 5 (map (line_knn dup_data 4) [0..<5]) [0, 0, 1, 1, 1] 0 2 = Fin 0"
    by (simp add: e' normalized_eq weights_eq inf_of_sign_def)
  show ?thesis
    using dup_neighbors_ann[of binary64] dup_neighbors_exact[of binary64] ann s e' ex by blast
qed

text \<open>
  Claim C3 as amended, for a search library whose distances are not negative and under
  every rounding. In the approximate branch, when the constructor, \<open>fit\<close>, \<open>transform\<close>
  and the bandwidth loop have succeeded, and in the exact branch, when the two searches
  have returned their graphs, the matrix \<open>W\<close> is produced without an error whatever
  bandwidths are 0. For a row \<open>i\<close> with \<open>\<sigma>\<^sub>i = 0\<close>, a stored edge of nonzero distance
  has the normalized distance \<open>+inf\<close>, an edge of distance 0 is dropped by \<open>find\<close>, and
  every weight of the row is 0.
\<close>

theorem zero_bandwidth_gives_zero_weight:
  assumes "nonneg_env ev"
  shows "(\<forall>t0 t t' g std.
            NMSlibTransformer_init (dn_neighbors self) (ann_dist self) ''hnsw'' (dn_jobs self)
              (dM self) (defC self) (defS self) = Inr t0
          \<and> NMSlibTransformer_fit t0 data = Inr t
          \<and> NMSlibTransformer_transform ev t data = (t', Inr g)
          \<and> adaptive_std_ann g (adaptive_k (dn_neighbors self)) = Inr std \<longrightarrow>
            snd (neighbors_ann ev rnd self data) = Inr (weights rnd (n_rows data) g std)
          \<and> (\<forall>i j. i < length g \<and> j < n_rows data \<and> std ! i = 0 \<longrightarrow>
                 weights rnd (n_rows data) g std i j = Fin 0
               \<and> (entry g i j \<noteq> 0 \<longrightarrow>
                     map_of (normalized rnd std (find_sp g (n_rows data))) (i, j) = Some PInf)
               \<and> (entry g i j = 0 \<longrightarrow> map_of (find_sp g (n_rows data)) (i, j) = None)))
       \<and> (\<forall>rows rows' g std.
            kneighbors_graph ev (knn_dist self) (dn_neighbors self) data = Inr rows
          \<and> kneighbors_graph ev ''euclidean'' (adaptive_k (dn_neighbors self)) data = Inr rows'
          \<and> g = map rows [0..<n_rows data]
          \<and> std = map (\<lambda>i. sp_row_max (n_rows data) (rows' i)) [0..<n_rows data] \<longrightarrow>
            snd (neighbors_exact ev rnd self data) = Inr (weights rnd (n_rows data) g std)
          \<and> (\<forall>i j. i < n_rows data \<and> j < n_rows data \<and> std ! i = 0 \<longrightarrow>
                 weights rnd (n_rows data) g std i j = Fin 0
               \<and> (entry g i j \<noteq> 0 \<longrightarrow>
                     map_of (normalized rnd std (find_sp g (n_rows data))) (i, j) = Some PInf)
               \<and> (entry g i j = 0 \<longrightarrow> map_of (find_sp g (n_rows data)) (i, j) = None)))"
proof (intro conjI allI impI)
  fix t0 t t' g std
  assume a: "NMSlibTransformer_init (dn_neighbors self) (ann_dist self) ''hnsw'' (dn_jobs self)
              (dM self) (defC self) (defS self) = Inr t0
          \<and> NMSlibTransformer_fit t0 data = Inr t
          \<and> NMSlibTransformer_transform ev t data = (t', Inr g)
          \<and> adaptive_std_ann g (adaptive_k (dn_neighbors self)) = Inr std"
  then show "snd (neighbors_ann ev rnd self data) = Inr (weights rnd (n_rows data) g std)"
    using neighbors_ann_eq by blast
  from a have "snd (NMSlibTransformer_transform ev t data) = Inr g" by simp
  then have nn: "nonneg_graph g" by (rule transform_nonneg[OF assms])
  fix i j
  assume b: "i < length g \<and> j < n_rows data \<and> std ! i = 0"
  with zero_bandwidth_edge[OF nn, of i std j "n_rows data" rnd]
  show "weights rnd (n_rows data) g std i j = Fin 0"
    and "entry g i j \<noteq> 0 \<Longrightarrow>
           map_of (normalized rnd std (find_sp g (n_rows data))) (i, j) = Some PInf"
    and "entry g i j = 0 \<Longrightarrow> map_of (find_sp g (n_rows data)) (i, j) = None"
    by blast+
next
  fix rows rows' g std
  assume a: "kneighbors_graph ev (knn_dist self) (dn_neighbors self) data = Inr rows
          \<and> kneighbors_graph ev ''euclidean'' (adaptive_k (dn_neighbors self)) data = Inr rows'
          \<and> g = map rows [0..<n_rows data]
          \<and> std = map (\<lambda>i. sp_row_max (n_rows data) (rows' i)) [0..<n_rows data]"
  then show "snd (neighbors_exact ev rnd self data) = Inr (weights rnd (n_rows data) g std)"
    using neighbors_exact_eq by blast
  from a have r: "kneighbors_graph ev (knn_dist self) (dn_neighbors self) data = Inr rows"
    and g: "g = map rows [0..<n_rows data]"
    by simp_all
  have "nonneg_env ev \<longrightarrow> nonneg_graph (map rows [0..<n_rows data])"
    using r by (auto simp: nonneg_graph_def nonneg_env_def)
  with assms g have nn: "nonneg_graph g" by simp
  from a have l: "length g = n_rows data" by simp
  fix i j
  assume b: "i < n_rows data \<and> j < n_rows data \<and> std ! i = 0"
  with zero_bandwidth_edge[OF nn, of i std j "n_rows data" rnd] l
  show "weights rnd (n_rows data) g std i j = Fin 0"
    and "entry g i j \<noteq> 0 \<Longrightarrow>
           map_of (normalized rnd std (find_sp g (n_rows data))) (i, j) = Some PInf"
    and "entry g i j = 0 \<Longrightarrow> map_of (find_sp g (n_rows data)) (i, j) = None"
    by simp_all
qed

theorem zero_bandwidth_gives_zero_weight_witness:
  "nonneg_env demo_env
   \<and> snd (neighbors_ann demo_env binary64 demo_diffusor dup_data)
     = Inr (weights binary64 (n_rows dup_data) dup_rows [0, 0, 1, 1, 1])
   \<and> weights binary64 (n_rows dup_data) dup_rows [0, 0, 1, 1, 1] 0 2 = Fin 0
   \<and> snd (neighbors_exact demo_env binary64 (demo_diffusor\<lparr>ann := False\<rparr>) dup_data)
     = Inr (weights binary64 (n_rows dup_data) (map (line_knn dup_data 4) [0..<n_rows dup_data])
              (map (\<lambda>i. sp_row_max (n_rows dup_data) (line_knn dup_data 2 i)) [0..<n_rows dup_data]))
   \<and> weights binary64 (n_rows dup_data) (map (line_knn dup_data 4) [0..<n_rows dup_data])
        (map (\<lambda>i. sp_row_max (n_rows dup_data) (line_knn dup_data 2 i)) [0..<n_rows dup_data]) 0 2
     = Fin 0"
proof -
  have tr: "NMSlibTransformer_transform demo_env (demo_fitted dup_data) dup_data
       = ((demo_fitted dup_data)\<lparr>n_neighbors := 5\<rparr>, Inr dup_rows)"
    using demo_fitted_transform[OF dup_data_facts(2)] by (simp add: dup_rows_def)
  have std: "adaptive_std_ann dup_rows (adaptive_k (dn_neighbors demo_diffusor)) = Inr [0, 0, 1, 1, 1]"
    using dup_std by (simp add: adaptive_k_def demo_diffusor_def)
  note th = zero_bandwidth_gives_zero_weight[OF nonneg_demo_env, of _ dup_data binary64]
  from th[of demo_diffusor] demo_init demo_fit[OF dup_data_facts(1)] tr std
  have 1: "snd (neighbors_ann demo_env binary64 demo_diffusor dup_data)
       = Inr (weights binary64 (n_rows dup_data) dup_rows [0, 0, 1, 1, 1])"
    and 2: "\<forall>i j. i < length dup_rows \<and> j < n_rows dup_data \<and> [0, 0, 1, 1, 1] ! i = (0::real) \<longrightarrow>
         weights binary64 (n_rows dup_data) dup_rows [0, 0, 1, 1, 1] i j = Fin 0"
    by blast+
  have "0 < length dup_rows \<and> 2 < n_rows dup_data \<and> [0, 0, 1, 1, 1] ! 0 = (0::real)"
    by (simp add: dup_rows_eq dup_data_facts)
  with 2 have 3: "weights binary64 (n_rows dup_data) dup_rows [0, 0, 1, 1, 1] 0 2 = Fin 0"
    by blast
  let ?g = "map (line_knn dup_data 4) [0..<n_rows dup_data]"
  let ?s = "map (\<lambda>i. sp_row_max (n_rows dup_data) (line_knn dup_data 2 i)) [0..<n_rows dup_data]"
  from th[of "demo_diffusor\<lparr>ann := False\<rparr>"] dup_exact_searches
  have 4: "snd (neighbors_exact demo_env binary64 (demo_diffusor\<lparr>ann := False\<rparr>) dup_data)
       = Inr (weights binary64 (n_rows dup_data) ?g ?s)"
    and 5: "\<forall>i j. i < n_rows dup_data \<and> j < n_rows dup_data \<and> ?s ! i = 0 \<longrightarrow>
         weights binary64 (n_rows dup_data) ?g ?s i j = Fin 0"
    by blast+
  have "0 < n_rows dup_data \<and> 2 < n_rows dup_data \<and> ?s ! 0 = 0"
    using dup_exact_std by (simp add: dup_data_facts)
  with 5 have 6: "weights binary64 (n_rows dup_data) ?g ?s 0 2 = Fin 0" by blast
  show ?thesis using nonneg_demo_env 1 3 4 6 by blast
qed

section \<open>The eigenpairs of the result\<close>

text \<open>
  Claim C4. The eigenvalue sequence of the result bundle of \<open>Diffusor.fit_transform\<close>
  is in non-increasing order, and every eigenvector column of the bundle has Euclidean norm
  1. The statement is about exact arithmetic, where the tolerance of the claim is 0, and
  about an eigensolver that returns no vector whose real part is zero everywhere.
\<close>

theorem eigenpairs_sorted_and_normalized:
  assumes "nonzero_real_parts ev"
    and "snd (fit_transform ev exact self data) = Inr res"
  shows "sorted_wrt (\<ge>) (EigenValues res)
       \<and> (\<forall>v \<in> set (EigenVectors res). np_norm exact v = Fin 1)"
proof -
  from fit_transform_Inr[OF assms(2)] obtain A pairs where
    e: "eigs ev A (n_rows data) (n_components self) = Inr pairs"
    and D: "EigenValues res = fst (eigen_stage exact pairs)"
    and V: "EigenVectors res = snd (eigen_stage exact pairs)"
    by blast
  from assms(1) e have "\<forall>p \<in> set pairs. \<exists>z \<in> set (snd p). Re z \<noteq> 0"
    unfolding nonzero_real_parts_def by blast
  then show ?thesis
    using eigen_stage_sorted[of pairs] eigen_stage_unit[of pairs] by (simp add: D V)
qed

theorem eigenpairs_sorted_and_normalized_witness:
  "\<exists>res. snd (fit_transform demo_env exact demo_diffusor demo_data) = Inr res
     \<and> EigenValues res = [1, 1 / 2] \<and> sorted_wrt (\<ge>) (EigenValues res)
     \<and> length (EigenVectors res) = 2
     \<and> np_norm exact (EigenVectors res ! 0) = Fin 1
     \<and> np_norm exact (EigenVectors res ! 1) = Fin 1"
proof -
  let ?W = "weights exact 5 demo_rows [1, 1, 1, 1, 1]"
  let ?res = "\<lparr>T = diffusion_operator exact 5 1 ?W,
          EigenVectors = snd (eigen_stage exact (take 2 demo_pairs)),
          EigenValues = fst (eigen_stage exact (take 2 demo_pairs)),
          kernel = kernel_construction exact 5 1 ?W\<rparr>"
  have res: "snd (fit_transform demo_env exact demo_diffusor demo_data) = Inr ?res"
    by (rule demo_fit_transform)
  have l: "length (EigenVectors ?res) = 2"
    by (simp add: eigen_stage_def demo_pairs_def stable_argsort_def Let_def)
  from eigenpairs_sorted_and_normalized[OF demo_nonzero_real_parts res]
  have s: "sorted_wrt (\<ge>) (EigenValues ?res)"
    and n: "\<forall>v \<in> set (EigenVectors ?res). np_norm exact v = Fin 1"
    by blast+
  have "EigenVectors ?res ! 0 \<in> set (EigenVectors ?res)" "EigenVectors ?res ! 1 \<in> set (EigenVectors ?res)"
    using l by (simp_all del: result_bundle.simps)
  with n have "np_norm exact (EigenVectors ?res ! 0) = Fin 1" "np_norm exact (EigenVectors ?res ! 1) = Fin 1"
    by blast+
  with res s l show ?thesis using demo_eigen_values by (intro exI[of _ ?res]) simp
qed

section \<open>The adaptive bandwidth of the approximate branch\<close>

text \<open>
  Claim C5 says that the bandwidth of a row is the \<open>adaptive_k\<close>-th smallest of the
  nonzero stored distances of the row. The loop sorts all the stored distances of the row,
  the explicit zeros with them: in the example, with \<open>n_neighbors = 4\<close>, row 0 stores the
  distances 0, 1, 2, 3, 4, the code takes 1 and the claim's wording gives 2.
\<close>

theorem adaptive_std_counts_zero_distances:
  "adaptive_std_ann demo_rows (adaptive_k 4) = Inr [1, 1, 1, 1, 1]
   \<and> spec_adaptive_std (row_data demo_rows 0) (adaptive_k 4) = Inr 2"
proof -
  have k: "adaptive_k 4 = 2" by (simp add: adaptive_k_def)
  have "spec_adaptive_std (row_data demo_rows 0) 2 = Inr 2"
    by (simp add: spec_adaptive_std_def row_data_def demo_rows_eq)
  then show ?thesis unfolding k using demo_std by simp
qed

text \<open>
  Claim C5 as amended: when \<open>1 \<le> adaptive_k\<close> and every row stores at least
  \<open>adaptive_k\<close> distances, the bandwidth of row \<open>i\<close> is the \<open>adaptive_k\<close>-th smallest
  (1-indexed) of all the stored distances of the row, zeros included: it is entry
  \<open>adaptive_k - 1\<close> of the sorted row, a stored distance with fewer than \<open>adaptive_k\<close>
  stored distances below it and at least \<open>adaptive_k\<close> not above it.
\<close>

theorem adaptive_std_ann_kth_stored:
  assumes "1 \<le> ak" and "\<forall>row \<in> set g. ak \<le> length row"
  shows "\<exists>std. adaptive_std_ann g ak = Inr std \<and> length std = length g
     \<and> (\<forall>i < length g.
           std ! i = sort (row_data g i) ! (ak - 1)
         \<and> std ! i \<in> set (row_data g i)
         \<and> length (filter (\<lambda>d. d < std ! i) (row_data g i)) < ak
         \<and> ak \<le> length (filter (\<lambda>d. d \<le> std ! i) (row_data g i)))"
proof -
  let ?f = "\<lambda>i. sort (row_data g i) ! (ak - 1)"
  have len: "ak \<le> length (row_data g i)" if "i < length g" for i
    using assms(2) that by (simp add: row_data_def)
  have eq: "map (\<lambda>i. py_index (sort (row_data g i)) (int ak - 1)) [0..<length g]
      = map (\<lambda>i. Inr (?f i)) [0..<length g]"
    using assms(1) len by (simp add: py_index_in_range)
  have std: "adaptive_std_ann g ak = Inr (map ?f [0..<length g])"
    unfolding adaptive_std_ann_def eq by (rule sequence_map_Inr)
  show ?thesis
    using std kth_smallest[OF assms(1) len] by simp
qed

theorem adaptive_std_ann_kth_stored_witness:
  "\<exists>std. adaptive_std_ann demo_rows 2 = Inr std \<and> length std = length demo_rows
     \<and> std ! 0 = sort (row_data demo_rows 0) ! (2 - 1) \<and> std ! 0 = 1"
proof -
  have 1: "(1::nat) \<le> 2" by simp
  have 2: "\<forall>row \<in> set demo_rows. 2 \<le> length row"
    by (simp add: demo_rows_eq)
  have 3: "0 < length demo_rows" by (simp add: demo_rows_eq)
  from adaptive_std_ann_kth_stored[OF 1 2] 3 show ?thesis
    by (auto simp: demo_std)
qed

section \<open>The multiscale embedding\<close>

text \<open>
  Claim C6. For every result bundle of \<open>N\<close> samples and every selected embedding dimension
  \<open>m = n_eigs\<close> (with \<open>1 \<le> m\<close> and \<open>m\<close> at most the number of eigenpairs of the
  bundle), \<open>multiscale.transform\<close> returns a matrix of \<open>m - 1\<close> columns of length \<open>N\<close>
  whose column \<open>j\<close>, for \<open>j = 1..m-1\<close>, is eigenvector \<open>j\<close> multiplied elementwise by
  \<open>eigenvalue\<^sub>j / (1 - eigenvalue\<^sub>j)\<close>; eigenvector 0 is dropped (the first column
  returned, at index 0, is eigenvector 1).
\<close>

theorem multiscale_transform_columns:
  assumes "n_eigs self = Some m" and "1 \<le> m" and "nat m \<le> length (EigenValues res)"
    and "length (EigenVectors res) = length (EigenValues res)"
    and "\<forall>v \<in> set (EigenVectors res). length v = N"
  shows "\<exists>cols. snd (multiscale_transform rnd self res) = Inr cols
     \<and> length cols = nat m - 1
     \<and> (\<forall>j i. 1 \<le> j \<and> j < nat m \<and> i < N \<longrightarrow>
           length (cols ! (j - 1)) = N
         \<and> cols ! (j - 1) ! i =
             np_mul rnd (EigenVectors res ! j ! i)
               (np_div rnd (Fin (EigenValues res ! j))
                  (np_add rnd (Fin 1) (np_neg (Fin (EigenValues res ! j))))))"
proof -
  let ?cols = "map (\<lambda>j. scale_column rnd (EigenVectors res ! j) (EigenValues res ! j)) [1..<nat m]"
  have r: "snd (multiscale_transform rnd self res) = Inr ?cols"
    by (simp add: multiscale_transform_Some[OF assms(1-4)])
  have len: "length ?cols = nat m - 1" by simp
  have col: "length (?cols ! (j - 1)) = N
         \<and> ?cols ! (j - 1) ! i =
             np_mul rnd (EigenVectors res ! j ! i)
               (np_div rnd (Fin (EigenValues res ! j))
                  (np_add rnd (Fin 1) (np_neg (Fin (EigenValues res ! j)))))"
    if "1 \<le> j" "j < nat m" "i < N" for j i
  proof -
    have j: "j < length (EigenVectors res)" using that(2) assms(3,4) by simp
    then have lv: "length (EigenVectors res ! j) = N" using assms(5) by simp
    have "[1..<nat m] ! (j - 1) = j" using that(1,2) by (simp add: nth_upt)
    moreover have "j - 1 < length [1..<nat m]" using that(1,2) by simp
    ultimately have "?cols ! (j - 1) = scale_column rnd (EigenVectors res ! j) (EigenValues res ! j)"
      by (simp only: nth_map)
    then show ?thesis using lv that(3) by (simp add: scale_column_def)
  qed
  show ?thesis using r len col by blast
qed

theorem multiscale_transform_columns_witness:
  "\<exists>cols. snd (multiscale_transform exact (demo_multiscale\<lparr>n_eigs := Some 3\<rparr>) demo_res) = Inr cols
     \<and> length cols = 2 \<and> length (cols ! 1) = 2 \<and> cols ! 1 ! 0 = Fin (1 / 5)"
proof -
  have 1: "n_eigs (demo_multiscale\<lparr>n_eigs := Some 3\<rparr>) = Some 3" by simp
  have 2: "(1::int) \<le> 3" by simp
  have 3: "nat 3 \<le> length (EigenValues demo_res)" by (simp add: demo_res_def)
  have 4: "length (EigenVectors demo_res) = length (EigenValues demo_res)"
    by (simp add: demo_res_def)
  have 5: "\<forall>v \<in> set (EigenVectors demo_res). length v = 2" by (simp add: demo_res_def)
  from multiscale_transform_columns[OF 1 2 3 4 5, of exact] obtain cols where
    r: "snd (multiscale_transform exact (demo_multiscale\<lparr>n_eigs := Some 3\<rparr>) demo_res) = Inr cols"
    and l: "length cols = nat 3 - 1"
    and c: "\<forall>j i. 1 \<le> j \<and> j < nat 3 \<and> i < 2 \<longrightarrow>
           length (cols ! (j - 1)) = 2
         \<and> cols ! (j - 1) ! i =
             np_mul exact (EigenVectors demo_res ! j ! i)
               (np_div exact (Fin (EigenValues demo_res ! j))
                  (np_add exact (Fin 1) (np_neg (Fin (EigenValues demo_res ! j)))))"
    by blast
  from c[rule_format, of 2 0] have "length (cols ! 1) = 2" "cols ! 1 ! 0 = Fin (1 / 5)"
    by (simp_all add: demo_res_def)
  with r l show ?thesis by auto
qed
section \<open>A request for too many components\<close>

text \<open>
  Claim C7 says that \<open>n_components \<ge> N\<close> raises a ConfigurationError before any neighbour
  search executes. \<open>fit_transform\<close> never compares \<open>n_components\<close> with \<open>N\<close>: on the five
  samples of the example, with \<open>n_components = 5\<close>, the index is built and queried, kernel and
  operator are computed, and the error is the one the eigensolver raises when it is called
  last.
\<close>

theorem demo_search_runs_before_error:
  "n_components (demo_diffusor\<lparr>n_components := 5\<rparr>) = 5 \<and> n_rows demo_data = 5
   \<and> fit_transform demo_env exact (demo_diffusor\<lparr>n_components := 5\<rparr>) demo_data
     = ([IndexBuilt ''hnsw'' ''cosinesimil_sparse_fast'', KnnQuery 5, EigsCall 5], Inl TypeError)"
  using line_fit_transform[OF demo_data_facts, of "[1, 1, 1, 1, 1]" exact 5] demo_std
  by (simp add: demo_rows_def demo_data_facts)

text \<open>
  Claim C7 as amended: \<open>fit_transform\<close> does not validate \<open>n_components\<close>. The neighbour
  stage (the searches and the matrix \<open>W\<close>) does not read it: for every value of
  \<open>n_components\<close> it makes the same library calls and ends with the same error or the same
  \<open>W\<close>. When it ends with an error, \<open>fit_transform\<close> raises that error for every value of
  \<open>n_components\<close> and the eigensolver is not called. Otherwise a neighbour search has been
  executed, kernel and operator are built from \<open>W\<close>, and the eigensolver is called on the
  operator with \<open>n_components\<close>: \<open>fit_transform\<close> raises exactly when the eigensolver
  does, with the eigensolver's error. So a value \<open>n_components \<ge> N\<close> is refused, if at all,
  by the eigensolver and after the neighbour search.
\<close>

theorem n_components_reaches_only_the_solver:
  "\<exists>tr r.
      (if ann self then neighbors_ann ev rnd self data else neighbors_exact ev rnd self data) = (tr, r)
    \<and> (\<forall>x \<in> set tr. is_search x)
    \<and> (\<forall>c. (if ann self then neighbors_ann ev rnd (self\<lparr>n_components := c\<rparr>) data
             else neighbors_exact ev rnd (self\<lparr>n_components := c\<rparr>) data) = (tr, r))
    \<and> (case r of
          Inl e \<Rightarrow> (\<forall>c. fit_transform ev rnd (self\<lparr>n_components := c\<rparr>) data = (tr, Inl e))
        | Inr W \<Rightarrow>
            tr \<noteq> []
          \<and> (\<forall>c. fst (fit_transform ev rnd (self\<lparr>n_components := c\<rparr>) data) = tr @ [EigsCall c]
               \<and> (\<forall>e. snd (fit_transform ev rnd (self\<lparr>n_components := c\<rparr>) data) = Inl e
                      \<longleftrightarrow> eigs ev (diffusion_operator rnd (n_rows data) (alpha self) W)
                            (n_rows data) c = Inl e)
               \<and> (\<forall>res. snd (fit_transform ev rnd (self\<lparr>n_components := c\<rparr>) data) = Inr res
                      \<longrightarrow> T res = diffusion_operator rnd (n_rows data) (alpha self) W
                        \<and> kernel res = kernel_construction rnd (n_rows data) (alpha self) W)))"
proof -
  obtain tr r where s: "(if ann self then neighbors_ann ev rnd self data
      else neighbors_exact ev rnd self data) = (tr, r)"
    by (cases "if ann self then neighbors_ann ev rnd self data
      else neighbors_exact ev rnd self data") auto
  have indep: "(if ann self then neighbors_ann ev rnd (self\<lparr>n_components := c\<rparr>) data
      else neighbors_exact ev rnd (self\<lparr>n_components := c\<rparr>) data) = (tr, r)" for c
    using s by (simp add: neighbors_ann_components neighbors_exact_components split: if_splits)
  have t: "(tr = [] \<and> (\<exists>e. r = Inl e)) \<or> (tr \<noteq> [] \<and> (\<forall>x \<in> set tr. is_search x))"
    using s neighbors_ann_trace[of ev rnd self data tr r] neighbors_exact_trace[of ev rnd self data tr r]
    by (auto split: if_splits)
  then have search: "\<forall>x \<in> set tr. is_search x" by auto
  have stage: "(if ann (self\<lparr>n_components := c\<rparr>)
      then neighbors_ann ev rnd (self\<lparr>n_components := c\<rparr>) data
      else neighbors_exact ev rnd (self\<lparr>n_components := c\<rparr>) data) = (tr, r)" for c
    using indep[of c] by simp
  have rest: "case r of
          Inl e \<Rightarrow> (\<forall>c. fit_transform ev rnd (self\<lparr>n_components := c\<rparr>) data = (tr, Inl e))
        | Inr W \<Rightarrow>
            tr \<noteq> []
          \<and> (\<forall>c. fst (fit_transform ev rnd (self\<lparr>n_components := c\<rparr>) data) = tr @ [EigsCall c]
               \<and> (\<forall>e. snd (fit_transform ev rnd (self\<lparr>n_components := c\<rparr>) data) = Inl e
                      \<longleftrightarrow> eigs ev (diffusion_operator rnd (n_rows data) (alpha self) W)
                            (n_rows data) c = Inl e)
               \<and> (\<forall>res. snd (fit_transform ev rnd (self\<lparr>n_components := c\<rparr>) data) = Inr res
                      \<longrightarrow> T res = diffusion_operator rnd (n_rows data) (alpha self) W
                        \<and> kernel res = kernel_construction rnd (n_rows data) (alpha self) W))"
  proof (cases r)
    case (Inl e)
    have "fit_transform ev rnd (self\<lparr>n_components := c\<rparr>) data = (tr, Inl e)" for c
      unfolding fit_transform_def stage[of c] Inl by (simp add: Let_def)
    with Inl show ?thesis by simp
  next
    case (Inr W)
    with t have ne: "tr \<noteq> []" by auto
    have f: "fit_transform ev rnd (self\<lparr>n_components := c\<rparr>) data =
        (tr @ [EigsCall c],
         case eigs ev (diffusion_operator rnd (n_rows data) (alpha self) W) (n_rows data) c of
           Inl e \<Rightarrow> Inl e
         | Inr pairs \<Rightarrow>
             Inr \<lparr>T = diffusion_operator rnd (n_rows data) (alpha self) W,
                  EigenVectors = snd (eigen_stage rnd pairs),
                  EigenValues = fst (eigen_stage rnd pairs),
                  kernel = kernel_construction rnd (n_rows data) (alpha self) W\<rparr>)" for c
      unfolding fit_transform_def stage[of c] Inr
      by (simp add: Let_def split: sum.splits prod.splits)
    have "fst (fit_transform ev rnd (self\<lparr>n_components := c\<rparr>) data) = tr @ [EigsCall c]
        \<and> (\<forall>e. snd (fit_transform ev rnd (self\<lparr>n_components := c\<rparr>) data) = Inl e
              \<longleftrightarrow> eigs ev (diffusion_operator rnd (n_rows data) (alpha self) W)
                    (n_rows data) c = Inl e)
        \<and> (\<forall>res. snd (fit_transform ev rnd (self\<lparr>n_components := c\<rparr>) data) = Inr res
              \<longrightarrow> T res = diffusion_operator rnd (n_rows data) (alpha self) W
                \<and> kernel res = kernel_construction rnd (n_rows data) (alpha self) W)" for c
      unfolding f[of c] by (auto split: sum.splits)
    with ne Inr show ?thesis by simp
  qed
  show ?thesis using s search indep rest by blast
qed

theorem n_components_reaches_only_the_solver_witness:
  "fst (fit_transform demo_env exact (demo_diffusor\<lparr>n_components := 5\<rparr>) demo_data)
     = [IndexBuilt ''hnsw'' ''cosinesimil_sparse_fast'', KnnQuery 5] @ [EigsCall 5]
   \<and> eigs demo_env (diffusion_operator exact (n_rows demo_data) (alpha demo_diffusor)
        (weights exact 5 demo_rows [1, 1, 1, 1, 1])) (n_rows demo_data) 5 = Inl TypeError
   \<and> snd (fit_transform demo_env exact (demo_diffusor\<lparr>n_components := 5\<rparr>) demo_data)
     = Inl TypeError"
proof -
  let ?tr = "[IndexBuilt ''hnsw'' ''cosinesimil_sparse_fast'', KnnQuery 5]"
  let ?W = "weights exact 5 demo_rows [1, 1, 1, 1, 1]"
  have d: "demo_diffusor\<lparr>n_components := 2\<rparr> = demo_diffusor" by (simp add: demo_diffusor_def)
  have n: "neighbors_ann demo_env exact demo_diffusor demo_data = (?tr, Inr ?W)"
    using line_neighbors_ann[OF demo_data_facts, of "[1, 1, 1, 1, 1]" exact 2] demo_std
    by (simp add: d demo_rows_def)
  have a: "ann demo_diffusor" by (simp add: demo_diffusor_def)
  from n_components_reaches_only_the_solver[of demo_diffusor demo_env exact demo_data]
  obtain tr r where
    1: "(if ann demo_diffusor then neighbors_ann demo_env exact demo_diffusor demo_data
         else neighbors_exact demo_env exact demo_diffusor demo_data) = (tr, r)"
    and 2: "case r of
          Inl e \<Rightarrow> (\<forall>c. fit_transform demo_env exact (demo_diffusor\<lparr>n_components := c\<rparr>) demo_data
                          = (tr, Inl e))
        | Inr W \<Rightarrow>
            tr \<noteq> []
          \<and> (\<forall>c. fst (fit_transform demo_env exact (demo_diffusor\<lparr>n_components := c\<rparr>) demo_data)
                   = tr @ [EigsCall c]
               \<and> (\<forall>e. snd (fit_transform demo_env exact (demo_diffusor\<lparr>n_components := c\<rparr>) demo_data)
                        = Inl e
                      \<longleftrightarrow> eigs demo_env (diffusion_operator exact (n_rows demo_data)
                              (alpha demo_diffusor) W) (n_rows demo_data) c = Inl e)
               \<and> (\<forall>res. snd (fit_transform demo_env exact (demo_diffusor\<lparr>n_components := c\<rparr>) demo_data)
                        = Inr res
                      \<longrightarrow> T res = diffusion_operator exact (n_rows demo_data) (alpha demo_diffusor) W
                        \<and> kernel res = kernel_construction exact (n_rows demo_data)
                                         (alpha demo_diffusor) W))"
    by blast
  from 1 a n have tr: "tr = ?tr" and r: "r = Inr ?W" by simp_all
  have e: "eigs demo_env (diffusion_operator exact (n_rows demo_data) (alpha demo_diffusor) ?W)
      (n_rows demo_data) 5 = Inl TypeError"
    by (simp add: demo_env_def demo_data_facts)
  from 2 have 3: "fst (fit_transform demo_env exact (demo_diffusor\<lparr>n_components := 5\<rparr>) demo_data)
        = ?tr @ [EigsCall 5]"
    and 4: "snd (fit_transform demo_env exact (demo_diffusor\<lparr>n_components := 5\<rparr>) demo_data)
               = Inl TypeError
          \<longleftrightarrow> eigs demo_env (diffusion_operator exact (n_rows demo_data) (alpha demo_diffusor) ?W)
                (n_rows demo_data) 5 = Inl TypeError"
    unfolding r tr by simp_all
  from 3 4 e show ?thesis by blast
qed

section \<open>Repeated calls and the fields of the objects\<close>

text \<open>
  Claim C8 says that repeated calls are independent: two \<open>transform\<close> calls with the same
  input return the same result, and no configuration field (\<open>n_neighbors\<close>, \<open>n_eigs\<close>)
  is changed by a \<open>fit\<close> or a \<open>transform\<close>. Both objects change: \<open>multiscale.transform\<close>
  stores the dimension it selects in \<open>n_eigs\<close> when none was given, and
  \<open>NMSlibTransformer.transform\<close> adds 1 to \<open>n_neighbors\<close> at every call, so that on the
  five samples of the example the first call returns a graph of 5 neighbours and the second
  one, asking for 6, raises.
\<close>

theorem transform_calls_change_the_objects:
  "n_eigs demo_multiscale = None
   \<and> n_eigs (fst (multiscale_transform exact demo_multiscale demo_res)) = Some 3
   \<and> n_neighbors (demo_fitted demo_data) = 4
   \<and> NMSlibTransformer_transform demo_env (demo_fitted demo_data) demo_data
       = ((demo_fitted demo_data)\<lparr>n_neighbors := 5\<rparr>, Inr demo_rows)
   \<and> snd (NMSlibTransformer_transform demo_env ((demo_fitted demo_data)\<lparr>n_neighbors := 5\<rparr>)
          demo_data) = Inl ValueError"
proof -
  have 1: "n_eigs demo_multiscale = None" by (simp add: demo_multiscale_def)
  have 2: "n_eigs (fst (multiscale_transform exact demo_multiscale demo_res)) = Some 3"
    by (simp add: demo_transform_selects)
  have 3: "n_neighbors (demo_fitted demo_data) = 4"
    by (simp add: demo_fitted_def demo_transformer_def)
  have 4: "NMSlibTransformer_transform demo_env (demo_fitted demo_data) demo_data
       = ((demo_fitted demo_data)\<lparr>n_neighbors := 5\<rparr>, Inr demo_rows)"
    using demo_fitted_transform[OF demo_data_facts(2)] by (simp add: demo_rows_def)
  have 5: "snd (NMSlibTransformer_transform demo_env ((demo_fitted demo_data)\<lparr>n_neighbors := 5\<rparr>)
          demo_data) = Inl ValueError"
    by (rule transform_short[where i = 0])
      (simp_all add: demo_fitted_def demo_transformer_def demo_data_facts demo_env_def line_knn_def)
  show ?thesis using 1 2 3 4 5 by simp
qed

text \<open>
  Claim C8 as amended: when a call of \<open>multiscale.transform\<close> returns a matrix, a second
  call on the same bundle returns the same matrix and leaves the object as the first call
  left it; \<open>multiscale.fit\<close> and \<open>multiscale.transform\<close> never change \<open>sensitivity\<close> or
  \<open>plot\<close>, and change nothing at all when \<open>n_eigs\<close> is given. When \<open>n_eigs\<close> is None
  they store the selected dimension in it: a \<open>transform\<close> that returns a matrix has stored
  the dimension \<open>m\<close> whose scaled columns it returns, and a \<open>fit\<close> whose knee locator
  finds the knee \<open>k\<close> returns with \<open>n_eigs = k\<close>. \<open>NMSlibTransformer.fit\<close> changes no
  configuration field.
\<close>

theorem multiscale_calls_repeatable:
  "(\<forall>cols. snd (multiscale_transform rnd self res) = Inr cols \<longrightarrow>
        multiscale_transform rnd (fst (multiscale_transform rnd self res)) res
          = (fst (multiscale_transform rnd self res), Inr cols))
   \<and> sensitivity (fst (multiscale_transform rnd self res)) = sensitivity self
   \<and> plot (fst (multiscale_transform rnd self res)) = plot self
   \<and> sensitivity (fst (multiscale_fit ev self res)) = sensitivity self
   \<and> plot (fst (multiscale_fit ev self res)) = plot self
   \<and> (n_eigs self \<noteq> None \<longrightarrow>
         fst (multiscale_transform rnd self res) = self \<and> fst (multiscale_fit ev self res) = self)
   \<and> (n_eigs self = None \<longrightarrow>
         (\<forall>cols. snd (multiscale_transform rnd self res) = Inr cols \<longrightarrow>
            (\<exists>m. n_eigs (fst (multiscale_transform rnd self res)) = Some m
                \<and> scaled_columns rnd res m = Inr cols))
       \<and> (\<forall>k. knee ev (EigenValues res) (sensitivity self) = Inr (Some k) \<longrightarrow>
            multiscale_fit ev self res = (self\<lparr>n_eigs := Some k\<rparr>, Inr ())))
   \<and> (\<forall>t'. NMSlibTransformer_fit t data = Inr t' \<longrightarrow>
         n_neighbors t' = n_neighbors t \<and> method_name t' = method_name t \<and> metric t' = metric t
       \<and> n_jobs t' = n_jobs t \<and> M t' = M t \<and> efC t' = efC t \<and> efS t' = efS t
       \<and> space t' = space t)"
proof -
  have again: "multiscale_transform rnd (self\<lparr>n_eigs := Some m\<rparr>) res
      = (self\<lparr>n_eigs := Some m\<rparr>, scaled_columns rnd res m)" for m
    by (simp add: multiscale_transform_def)
  have tr: "(\<forall>cols. snd (multiscale_transform rnd self res) = Inr cols \<longrightarrow>
        multiscale_transform rnd (fst (multiscale_transform rnd self res)) res
          = (fst (multiscale_transform rnd self res), Inr cols))
      \<and> sensitivity (fst (multiscale_transform rnd self res)) = sensitivity self
      \<and> plot (fst (multiscale_transform rnd self res)) = plot self
      \<and> (n_eigs self \<noteq> None \<longrightarrow> fst (multiscale_transform rnd self res) = self)"
  proof (cases "n_eigs self")
    case (Some m)
    then have s: "self\<lparr>n_eigs := Some m\<rparr> = self" by simp
    have "multiscale_transform rnd self res = (self, scaled_columns rnd res m)"
      by (simp add: multiscale_transform_def Some)
    then show ?thesis using again[of m] by (simp add: s)
  next
    case None
    show ?thesis
      using None again
      by (auto simp: multiscale_transform_def Let_def split: sum.splits)
  qed
  have ft: "sensitivity (fst (multiscale_fit ev self res)) = sensitivity self
      \<and> plot (fst (multiscale_fit ev self res)) = plot self
      \<and> (n_eigs self \<noteq> None \<longrightarrow> fst (multiscale_fit ev self res) = self)"
    by (auto simp: multiscale_fit_def split: option.splits sum.splits)
  have st: "n_eigs self = None \<longrightarrow>
         (\<forall>cols. snd (multiscale_transform rnd self res) = Inr cols \<longrightarrow>
            (\<exists>m. n_eigs (fst (multiscale_transform rnd self res)) = Some m
                \<and> scaled_columns rnd res m = Inr cols))
       \<and> (\<forall>k. knee ev (EigenValues res) (sensitivity self) = Inr (Some k) \<longrightarrow>
            multiscale_fit ev self res = (self\<lparr>n_eigs := Some k\<rparr>, Inr ()))"
    by (auto simp: multiscale_transform_def multiscale_fit_def Let_def split: sum.splits)
  have nm: "\<forall>t'. NMSlibTransformer_fit t data = Inr t' \<longrightarrow>
         n_neighbors t' = n_neighbors t \<and> method_name t' = method_name t \<and> metric t' = metric t
       \<and> n_jobs t' = n_jobs t \<and> M t' = M t \<and> efC t' = efC t \<and> efS t' = efS t
       \<and> space t' = space t"
    by (auto simp: NMSlibTransformer_fit_def split: if_splits)
  show ?thesis using tr ft st nm by blast
qed

theorem multiscale_calls_repeatable_witness:
  "(\<exists>cols. snd (multiscale_transform exact demo_multiscale demo_res) = Inr cols
      \<and> multiscale_transform exact (fst (multiscale_transform exact demo_multiscale demo_res)) demo_res
          = (fst (multiscale_transform exact demo_multiscale demo_res), Inr cols))
   \<and> fst (multiscale_transform exact (demo_multiscale\<lparr>n_eigs := Some 3\<rparr>) demo_res)
     = demo_multiscale\<lparr>n_eigs := Some 3\<rparr>
   \<and> (\<exists>m cols. n_eigs (fst (multiscale_transform exact demo_multiscale demo_res)) = Some m
         \<and> scaled_columns exact demo_res m = Inr cols)
   \<and> multiscale_fit demo_env demo_multiscale demo_res = (demo_multiscale\<lparr>n_eigs := Some 2\<rparr>, Inr ())
   \<and> n_neighbors (demo_fitted demo_data) = n_neighbors demo_transformer"
proof -
  have 1: "n_eigs (demo_multiscale\<lparr>n_eigs := Some 3\<rparr>) \<noteq> None" by simp
  have 2: "NMSlibTransformer_fit demo_transformer demo_data = Inr (demo_fitted demo_data)"
    by (rule demo_fit[OF demo_data_facts(1)])
  have "scaled_columns exact demo_res 3
      = Inr (map (\<lambda>j. scale_column exact (EigenVectors demo_res ! j) (EigenValues demo_res ! j))
               [1..<nat 3])"
    by (rule scaled_columns_in_range) (simp_all add: demo_res_def)
  then obtain cols where 3: "snd (multiscale_transform exact demo_multiscale demo_res) = Inr cols"
    by (simp add: demo_transform_selects)
  have 4: "n_eigs demo_multiscale = None" by (simp add: demo_multiscale_def)
  have 5: "knee demo_env (EigenValues demo_res) (sensitivity demo_multiscale) = Inr (Some 2)"
    by (simp add: demo_env_def demo_res_def)
  from multiscale_calls_repeatable[of exact demo_multiscale demo_res demo_env demo_transformer demo_data]
  have a: "multiscale_transform exact (fst (multiscale_transform exact demo_multiscale demo_res)) demo_res
          = (fst (multiscale_transform exact demo_multiscale demo_res), Inr cols)"
    and c: "n_neighbors (demo_fitted demo_data) = n_neighbors demo_transformer"
    and d: "\<exists>m. n_eigs (fst (multiscale_transform exact demo_multiscale demo_res)) = Some m
         \<and> scaled_columns exact demo_res m = Inr cols"
    and e: "multiscale_fit demo_env demo_multiscale demo_res
         = (demo_multiscale\<lparr>n_eigs := Some 2\<rparr>, Inr ())"
    using 2 3 4 5 by blast+
  from multiscale_calls_repeatable[of exact "demo_multiscale\<lparr>n_eigs := Some 3\<rparr>" demo_res
      demo_env demo_transformer demo_data] 1
  have b: "fst (multiscale_transform exact (demo_multiscale\<lparr>n_eigs := Some 3\<rparr>) demo_res)
     = demo_multiscale\<lparr>n_eigs := Some 3\<rparr>"
    by blast
  show ?thesis using 3 a b c d e by blast
qed

section \<open>The space of the nmslib index\<close>

text \<open>
  Claim C9 says that the approximate neighbour provider builds its index in the space of
  the requested metric. The constructor looks the space up (\<open>self.space\<close>), but \<open>fit\<close>
  passes the constant \<open>'cosinesimil_sparse_fast'\<close> to \<open>nmslib.init\<close>: for the metric
  \<open>'euclidean'\<close> the attribute is \<open>'l2'\<close> and the index is a cosine index.
\<close>

theorem index_space_ignores_metric:
  "fitted_spaces ''euclidean'' demo_data = Inr (''l2'', ''cosinesimil_sparse_fast'')"
  by (simp add: fitted_spaces_def NMSlibTransformer_init_def space_table_def
      NMSlibTransformer_fit_def demo_data_def)

section \<open>The bandwidth of the exact branch\<close>



section \<open>Further properties of the code\<close>

text \<open>
  Every call of \<open>NMSlibTransformer.transform\<close> on a fitted object adds 1 to its
  \<open>n_neighbors\<close>, whether the call returns or raises: a second call asks the index for one
  neighbour more than the first.
\<close>

theorem transform_increments_n_neighbors:
  assumes "nmslib_index_of t = Some idx"
  shows "n_neighbors (fst (NMSlibTransformer_transform ev t data)) = n_neighbors t + 1"
  by (simp add: NMSlibTransformer_transform_def assms Let_def)

theorem transform_increments_n_neighbors_witness:
  "n_neighbors (demo_fitted demo_data) = 4
   \<and> n_neighbors (fst (NMSlibTransformer_transform demo_env (demo_fitted demo_data) demo_data)) = 5"
proof -
  have i: "nmslib_index_of (demo_fitted demo_data)
      = Some \<lparr>idx_method = ''hnsw'', idx_space = ''cosinesimil_sparse_fast'',
              idx_data = demo_data, idx_params = (30, - 2, 100)\<rparr>"
    by (simp add: demo_fitted_def)
  have n: "n_neighbors (demo_fitted demo_data) = 4"
    by (simp add: demo_fitted_def demo_transformer_def)
  from transform_increments_n_neighbors[OF i, of demo_env demo_data] n show ?thesis by simp
qed

text \<open>
  In exact arithmetic and for distances that are not negative, the degree of a row of the
  kernel held by the result is nonzero exactly when the degree of that row of \<open>W + W\<^sup>T\<close>
  is: the anisotropic scaling isolates no sample and connects none.
\<close>

theorem scaled_degree_nonzero_iff_degree_nonzero:
  assumes "nonneg_env ev"
    and "snd (fit_transform ev exact self data) = Inr res"
    and "i < n_rows data"
  shows "\<exists>W. kernel res = kernel_construction exact (n_rows data) (alpha self) W
     \<and> (np_ne0 (row_sum exact (n_rows data) (kernel res) i)
          \<longleftrightarrow> np_ne0 (row_sum exact (n_rows data) (symmetrize exact W) i))"
proof -
  from fit_transform_Inr[OF assms(2)] obtain W where
    W: "snd (if ann self then neighbors_ann ev exact self data
             else neighbors_exact ev exact self data) = Inr W"
    and K: "kernel res = kernel_construction exact (n_rows data) (alpha self) W"
    by blast
  from W obtain g std where "W = weights exact (n_rows data) g std" "nonneg_env ev \<longrightarrow> nonneg_graph g"
    using neighbors_ann_weights neighbors_exact_weights by (metis (full_types))
  with assms(1) have fw: "finite_nonneg W"
    by (simp add: weights_finite_nonneg)
  have 0: "kernel_degree exact (n_rows data) 0 W = row_sum exact (n_rows data) (symmetrize exact W)"
    by (simp add: kernel_degree_def kernel_construction_def)
  have "np_ne0 (row_sum exact (n_rows data) (kernel res) i)
      \<longleftrightarrow> np_ne0 (kernel_degree exact (n_rows data) (alpha self) W i)"
    by (simp add: K kernel_degree_def)
  also have "\<dots> \<longleftrightarrow> np_ne0 (kernel_degree exact (n_rows data) 0 W i)"
    using kernel_degree_nonzero_iff[OF fw assms(3), of "alpha self"]
      kernel_degree_nonzero_iff[OF fw assms(3), of 0] by simp
  finally show ?thesis using K 0 by auto
qed

theorem scaled_degree_nonzero_iff_degree_nonzero_witness:
  "\<exists>res W. snd (fit_transform demo_env exact demo_diffusor demo_data) = Inr res
     \<and> kernel res = kernel_construction exact (n_rows demo_data) (alpha demo_diffusor) W
     \<and> (np_ne0 (row_sum exact (n_rows demo_data) (kernel res) 0)
          \<longleftrightarrow> np_ne0 (row_sum exact (n_rows demo_data) (symmetrize exact W) 0))"
proof -
  obtain res where r: "snd (fit_transform demo_env exact demo_diffusor demo_data) = Inr res"
    using demo_fit_transform[of exact] by blast
  have "0 < n_rows demo_data" by (simp add: demo_data_facts)
  from scaled_degree_nonzero_iff_degree_nonzero[OF nonneg_demo_env r this] r show ?thesis by blast
qed

text \<open>
  In exact arithmetic and for distances that are not negative, no hypothesis on the
  roundings is needed: a row of the diffusion operator whose kernel degree is not zero sums
  to exactly 1, and a row whose kernel degree is zero is all zero.
\<close>

theorem exact_rows_sum_to_one:
  assumes "nonneg_env ev"
    and "snd (fit_transform ev exact self data) = Inr res"
    and "i < n_rows data"
  shows "(np_ne0 (row_sum exact (n_rows data) (kernel res) i) \<longrightarrow>
            np_sum exact (map (T res i) [0..<n_rows data]) = Fin 1)
       \<and> (\<not> np_ne0 (row_sum exact (n_rows data) (kernel res) i) \<longrightarrow>
            (\<forall>j < n_rows data. T res i j = Fin 0))"
proof -
  from fit_transform_Inr[OF assms(2)] obtain W where
    W: "snd (if ann self then neighbors_ann ev exact self data
             else neighbors_exact ev exact self data) = Inr W"
    and T: "T res = diffusion_operator exact (n_rows data) (alpha self) W"
    and K: "kernel res = kernel_construction exact (n_rows data) (alpha self) W"
    by blast
  from W obtain g std where "W = weights exact (n_rows data) g std" "nonneg_env ev \<longrightarrow> nonneg_graph g"
    using neighbors_ann_weights neighbors_exact_weights by (metis (full_types))
  with assms(1) have "finite_nonneg W"
    by (simp add: weights_finite_nonneg)
  from diffusion_row[OF this assms(3), of "alpha self"] show ?thesis
    by (simp add: T K kernel_degree_def)
qed

theorem exact_rows_sum_to_one_witness:
  "nonneg_env demo_env
   \<and> (\<exists>res. snd (fit_transform demo_env exact demo_diffusor demo_data) = Inr res
        \<and> np_ne0 (row_sum exact (n_rows demo_data) (kernel res) 0)
        \<and> np_sum exact (map (T res 0) [0..<n_rows demo_data]) = Fin 1)
   \<and> (\<exists>res. snd (fit_transform demo_env exact isolated_diffusor demo_data) = Inr res
        \<and> \<not> np_ne0 (row_sum exact (n_rows demo_data) (kernel res) 0)
        \<and> T res 0 1 = Fin 0)"
proof -
  let ?W = "weights exact 5 demo_rows [1, 1, 1, 1, 1]"
  let ?res = "\<lparr>T = diffusion_operator exact 5 1 ?W,
          EigenVectors = snd (eigen_stage exact (take 2 demo_pairs)),
          EigenValues = fst (eigen_stage exact (take 2 demo_pairs)),
          kernel = kernel_construction exact 5 1 ?W\<rparr>"
  have n: "n_rows demo_data = 5" by (simp add: n_rows_def demo_data_def)
  have i: "0 < n_rows demo_data" by (simp add: n)
  have res: "snd (fit_transform demo_env exact demo_diffusor demo_data) = Inr ?res"
    by (rule demo_fit_transform)
  have "finite_nonneg ?W"
    by (rule weights_finite_nonneg) (simp add: nonneg_graph_def demo_rows_eq)
  then have "np_ne0 (kernel_degree exact 5 1 ?W 0)"
    using kernel_degree_nonzero_iff[of ?W 0 5 1] demo_weight_0_1 by auto
  then have ne: "np_ne0 (row_sum exact (n_rows demo_data) (kernel ?res) 0)"
    by (simp add: kernel_degree_def n)
  from exact_rows_sum_to_one[OF nonneg_demo_env res i] ne
  have "np_sum exact (map (T ?res 0) [0..<n_rows demo_data]) = Fin 1" by blast
  with res ne have 1: "\<exists>res. snd (fit_transform demo_env exact demo_diffusor demo_data) = Inr res
        \<and> np_ne0 (row_sum exact (n_rows demo_data) (kernel res) 0)
        \<and> np_sum exact (map (T res 0) [0..<n_rows demo_data]) = Fin 1"
    by blast
  let ?Z = "weights exact 5 (map (line_knn demo_data 3) [0..<5]) [0, 0, 0, 0, 0]"
  let ?iso = "\<lparr>T = diffusion_operator exact 5 1 ?Z,
          EigenVectors = snd (eigen_stage exact (take 2 demo_pairs)),
          EigenValues = fst (eigen_stage exact (take 2 demo_pairs)),
          kernel = kernel_construction exact 5 1 ?Z\<rparr>"
  have iso: "snd (fit_transform demo_env exact isolated_diffusor demo_data) = Inr ?iso"
    by (rule isolated_fit_transform)
  have "finite_nonneg ?Z"
    by (simp add: finite_nonneg_def isolated_weights)
  then have "\<not> np_ne0 (kernel_degree exact 5 1 ?Z 0)"
    using kernel_degree_nonzero_iff[of ?Z 0 5 1] by (simp add: isolated_weights)
  then have z: "\<not> np_ne0 (row_sum exact (n_rows demo_data) (kernel ?iso) 0)"
    by (simp add: kernel_degree_def n)
  from exact_rows_sum_to_one[OF nonneg_demo_env iso i] z
  have "\<forall>j < n_rows demo_data. T ?iso 0 j = Fin 0" by blast
  then have "T ?iso 0 1 = Fin 0" by (simp add: n)
  with iso z have 2: "\<exists>res. snd (fit_transform demo_env exact isolated_diffusor demo_data) = Inr res
        \<and> \<not> np_ne0 (row_sum exact (n_rows demo_data) (kernel res) 0)
        \<and> T res 0 1 = Fin 0"
    by blast
  show ?thesis using nonneg_demo_env 1 2 by blast
qed

end
